theory Spec2Isabelle
  imports Complex_Main "HOL-Library.Multiset"
begin

chapter \<open>Ai2Human: the text analytics, comparison, humanizer and batch services\<close>

text \<open>
  A shallow embedding of the Python services under \<^verbatim>\<open>src/services\<close> and of the
  humanizer route, and the properties of the specification checked against them.

  Conventions of the embedding.
  \<^item> A Python \<^verbatim>\<open>str\<close> is a list of Unicode code points (\<open>utext\<close>): the sources use
    the em-dash U+2014, which is not a byte.
  \<^item> A Python \<^verbatim>\<open>float\<close> is a \<open>real\<close>: arithmetic is exact, \<^verbatim>\<open>round(x, n)\<close> rounds the
    exact value half to even. The rounding of binary64 is modelled where a property is about
    it: in the achieved percentages and the processing time of the humanizer.
  \<^item> A \<^verbatim>\<open>dict\<close> with a fixed set of keys is a record; a dict that reports either an
    \<^verbatim>\<open>'error'\<close> key or its metrics is a sum type (\<open>Inl\<close> the error message).
  \<^item> Clock readings (\<^verbatim>\<open>time.time()\<close>), random draws, the completion order of the
    worker pool and the randomised rewriting passes are explicit parameters.
\<close>

section \<open>Text\<close>

type_synonym utext = "nat list"

definition str :: "string \<Rightarrow> utext" where
  "str s = map of_char s"

text \<open>
  Whitespace as \<^verbatim>\<open>str.isspace\<close>, \<^verbatim>\<open>str.strip()\<close>, \<^verbatim>\<open>str.split()\<close> and the regular expression
  class \<^verbatim>\<open>\s\<close> of CPython 3 see it: U+0009..U+000D, U+001C..U+0020, U+0085, U+00A0, U+1680,
  U+2000..U+200A, U+2028, U+2029, U+202F, U+205F, U+3000.
\<close>

definition is_space :: "nat \<Rightarrow> bool" where
  "is_space c = ((9 \<le> c \<and> c \<le> 13) \<or> (28 \<le> c \<and> c \<le> 32) \<or> c = 133 \<or> c = 160 \<or> c = 5760
     \<or> (8192 \<le> c \<and> c \<le> 8202) \<or> c = 8232 \<or> c = 8233 \<or> c = 8239 \<or> c = 8287 \<or> c = 12288)"

definition strip :: "utext \<Rightarrow> utext" where
  "strip s = rev (dropWhile is_space (rev (dropWhile is_space s)))"

text \<open>
  The character tables of the interpreter that are too large to write out are a parameter:
  \<open>isalnum\<close> is \<^verbatim>\<open>str.isalnum\<close> on one code point (the regular expression class \<^verbatim>\<open>\w\<close> is
  \<open>isalnum\<close> or the underscore), \<open>lower\<close> is \<^verbatim>\<open>str.lower\<close>, and \<open>caseless p c\<close> says that the
  pattern character \<open>p\<close> matches the text character \<open>c\<close> under \<^verbatim>\<open>re.IGNORECASE\<close>.
  \<open>ascii_ucd\<close> is the table restricted to ASCII, where it agrees with CPython.
\<close>

record ucd =
  isalnum :: "nat \<Rightarrow> bool"
  lower :: "utext \<Rightarrow> utext"
  caseless :: "nat \<Rightarrow> nat \<Rightarrow> bool"

definition ascii_isalnum :: "nat \<Rightarrow> bool" where
  "ascii_isalnum c = ((48 \<le> c \<and> c \<le> 57) \<or> (65 \<le> c \<and> c \<le> 90) \<or> (97 \<le> c \<and> c \<le> 122))"

definition ascii_lower :: "nat \<Rightarrow> nat" where
  "ascii_lower c = (if 65 \<le> c \<and> c \<le> 90 then c + 32 else c)"

definition ascii_ucd :: ucd where
  "ascii_ucd = \<lparr>isalnum = ascii_isalnum, lower = map ascii_lower,
                 caseless = (\<lambda>p c. ascii_lower p = ascii_lower c)\<rparr>"

definition is_word_char :: "ucd \<Rightarrow> nat \<Rightarrow> bool" where
  "is_word_char U c = (isalnum U c \<or> c = 95)"

subsection \<open>Regular expressions of the sources\<close>

text \<open>
  \<open>runs P s\<close> lists the maximal runs of elements of \<open>s\<close> that satisfy \<open>P\<close>, left to right.
  \<^verbatim>\<open>re.findall(r'\b\w+\b', s)\<close> is \<open>runs\<close> of the word characters: a match starts at a word
  boundary, \<^verbatim>\<open>\w+\<close> is greedy, and the end of a maximal run is a boundary. \<^verbatim>\<open>s.split()\<close> is
  \<open>runs\<close> of the characters that are not whitespace.
\<close>

function runs :: "('a \<Rightarrow> bool) \<Rightarrow> 'a list \<Rightarrow> 'a list list" where
  "runs P s =
     (case dropWhile (\<lambda>c. \<not> P c) s of
        [] \<Rightarrow> []
      | c # cs \<Rightarrow> takeWhile P (c # cs) # runs P (dropWhile P cs))"
  by pat_completeness auto
termination
proof (relation "measure (\<lambda>(P, s). length s)")
  show "wf (measure (\<lambda>(P, s). length s))" by simp
next
  fix P :: "'a \<Rightarrow> bool" and s c cs
  assume a: "dropWhile (\<lambda>c. \<not> P c) s = c # cs"
  have "length (dropWhile P cs) \<le> length cs" by (rule length_dropWhile_le)
  moreover have "length (c # cs) \<le> length s"
    using length_dropWhile_le[of "\<lambda>c. \<not> P c" s] a by simp
  ultimately show "((P, dropWhile P cs), (P, s)) \<in> measure (\<lambda>(P, s). length s)" by simp
qed

declare runs.simps [simp del]

definition findall_words :: "ucd \<Rightarrow> utext \<Rightarrow> utext list" where
  "findall_words U s = runs (is_word_char U) s"

definition split_whitespace :: "utext \<Rightarrow> utext list" where
  "split_whitespace s = runs (\<lambda>c. \<not> is_space c) s"

text \<open>
  \<^verbatim>\<open>re.split(r'[.!?]+', s)\<close>: the pieces between the maximal runs of \<^verbatim>\<open>.\<close>, \<^verbatim>\<open>!\<close>, \<^verbatim>\<open>?\<close>, empty
  pieces included (before a leading run, after a trailing one).
\<close>

definition is_terminator :: "nat \<Rightarrow> bool" where
  "is_terminator c = (c = 46 \<or> c = 33 \<or> c = 63)"

function re_split_terminators :: "utext \<Rightarrow> utext list" where
  "re_split_terminators s =
     (case dropWhile (\<lambda>c. \<not> is_terminator c) s of
        [] \<Rightarrow> [takeWhile (\<lambda>c. \<not> is_terminator c) s]
      | c # cs \<Rightarrow> takeWhile (\<lambda>c. \<not> is_terminator c) s
                 # re_split_terminators (dropWhile is_terminator cs))"
  by pat_completeness auto
termination
proof (relation "measure length")
  show "wf (measure length)" by simp
next
  fix s :: utext and c cs
  assume a: "dropWhile (\<lambda>c. \<not> is_terminator c) s = c # cs"
  have "length (dropWhile is_terminator cs) \<le> length cs" by (rule length_dropWhile_le)
  moreover have "length (c # cs) \<le> length s"
    using length_dropWhile_le[of "\<lambda>c. \<not> is_terminator c" s] a by simp
  ultimately show "(dropWhile is_terminator cs, s) \<in> measure length" by simp
qed

declare re_split_terminators.simps [simp del]

text \<open>
  \<^verbatim>\<open>re.findall\<close> of the punctuation class of the sources: semicolon, colon, comma, hyphen,
  em-dash (U+2014), round, square and curly brackets and the double quote; the comparison
  service adds the sentence terminators to the class.
\<close>

definition is_punctuation_mark :: "nat \<Rightarrow> bool" where
  "is_punctuation_mark c = (c \<in> {59, 58, 44, 45, 8212, 40, 41, 91, 93, 123, 125, 34})"

definition findall_punctuation :: "utext \<Rightarrow> utext" where
  "findall_punctuation s = filter is_punctuation_mark s"

definition findall_punctuation_all :: "utext \<Rightarrow> utext" where
  "findall_punctuation_all s = filter (\<lambda>c. is_terminator c \<or> is_punctuation_mark c) s"

text \<open>\<^verbatim>\<open>len(s.split('\n\n'))\<close>: one more than the occurrences of two line feeds, scanned left to right.\<close>

fun count_blank_lines :: "utext \<Rightarrow> nat" where
  "count_blank_lines (a # b # cs) =
     (if a = 10 \<and> b = 10 then Suc (count_blank_lines cs) else count_blank_lines (b # cs))"
| "count_blank_lines _ = 0"

definition paragraph_count :: "utext \<Rightarrow> nat" where
  "paragraph_count s = count_blank_lines s + 1"

text \<open>
  \<^verbatim>\<open>len(re.findall(rf'\b{word}\b', s, re.IGNORECASE))\<close> for a word of letters: the occurrences
  of \<open>word\<close>, compared caselessly, that have no word character right before and right after.
  \<open>prev\<close> is the character before the scanned suffix (\<open>None\<close> at the start of the text).
\<close>

fun caseless_prefix :: "ucd \<Rightarrow> utext \<Rightarrow> utext \<Rightarrow> bool" where
  "caseless_prefix U [] s = True"
| "caseless_prefix U (p # ps) [] = False"
| "caseless_prefix U (p # ps) (c # cs) = (caseless U p c \<and> caseless_prefix U ps cs)"

definition word_match_here :: "ucd \<Rightarrow> utext \<Rightarrow> nat option \<Rightarrow> utext \<Rightarrow> bool" where
  "word_match_here U word prev s =
     ((case prev of None \<Rightarrow> True | Some q \<Rightarrow> \<not> is_word_char U q)
      \<and> caseless_prefix U word s
      \<and> (case drop (length word) s of [] \<Rightarrow> True | c # cs \<Rightarrow> \<not> is_word_char U c))"

fun count_word :: "ucd \<Rightarrow> utext \<Rightarrow> nat option \<Rightarrow> utext \<Rightarrow> nat" where
  "count_word U word prev [] = 0"
| "count_word U word prev (c # cs) =
     (if word_match_here U word prev (c # cs) then 1 else 0) + count_word U word (Some c) cs"

subsection \<open>Tokenizer (text analytics service)\<close>

definition split_sentences :: "utext \<Rightarrow> utext list" where
  "split_sentences text = filter (\<lambda>s. s \<noteq> []) (map strip (re_split_terminators text))"

definition split_words :: "ucd \<Rightarrow> utext \<Rightarrow> utext list" where
  "split_words U text = findall_words U (lower U text)"

fun syllable_scan :: "bool \<Rightarrow> nat \<Rightarrow> utext \<Rightarrow> nat" where
  "syllable_scan prev_was_vowel syllable_count [] = syllable_count"
| "syllable_scan prev_was_vowel syllable_count (c # cs) =
     (let is_vowel = (c \<in> set (str ''aeiouy''))
      in syllable_scan is_vowel
           (if is_vowel \<and> \<not> prev_was_vowel then syllable_count + 1 else syllable_count) cs)"

definition count_syllables :: "ucd \<Rightarrow> utext \<Rightarrow> nat" where
  "count_syllables U word0 =
     (let word = lower U word0;
          syllable_count = syllable_scan False 0 word;
          syllable_count = (if word \<noteq> [] \<and> last word = 101 \<and> syllable_count > 1
                            then syllable_count - 1 else syllable_count)
      in max 1 syllable_count)"

section \<open>Numbers\<close>

definition round_half_even :: "real \<Rightarrow> int" where
  "round_half_even x =
     (let f = \<lfloor>x\<rfloor>; d = x - of_int f
      in if d < 1 / 2 then f else if 1 / 2 < d then f + 1 else if even f then f else f + 1)"

definition py_round :: "real \<Rightarrow> nat \<Rightarrow> real" where
  "py_round x ndigits = of_int (round_half_even (x * 10 ^ ndigits)) / 10 ^ ndigits"

subsection \<open>Binary floating point\<close>

text \<open>
  A binary64 operation gives the exact result rounded to the nearest number with a
  significand of 53 bits, ties to the even significand. \<open>exponent x\<close> is the binary exponent of
  \<open>x\<close> and \<open>rnd64\<close> the rounding. The exponent range is not modelled (no overflow, no
  subnormal numbers): the values it is used on stay far inside the range.
  \<open>float_round\<close> is \<^verbatim>\<open>round(x, n)\<close> on a float: CPython rounds the exact value of \<open>x\<close> to \<open>n\<close>
  decimals, half to even, and converts the decimal result to the nearest float.
\<close>

definition exponent :: "real \<Rightarrow> int" where
  "exponent x = \<lfloor>log 2 \<bar>x\<bar>\<rfloor>"

definition rnd64 :: "real \<Rightarrow> real" where
  "rnd64 x =
     (if x = 0 then 0
      else let ulp = 2 powr (of_int (exponent x) - 52)
           in of_int (round_half_even (x / ulp)) * ulp)"

definition fadd :: "real \<Rightarrow> real \<Rightarrow> real" where
  "fadd x y = rnd64 (x + y)"

definition fsub :: "real \<Rightarrow> real \<Rightarrow> real" where
  "fsub x y = rnd64 (x - y)"

definition fmul :: "real \<Rightarrow> real \<Rightarrow> real" where
  "fmul x y = rnd64 (x * y)"

definition fdiv :: "real \<Rightarrow> real \<Rightarrow> real" where
  "fdiv x y = rnd64 (x / y)"

definition float_round :: "real \<Rightarrow> nat \<Rightarrow> real" where
  "float_round x ndigits = rnd64 (py_round x ndigits)"

subsection \<open>Statistics\<close>

text \<open>
  \<^verbatim>\<open>statistics.mean\<close>, \<^verbatim>\<open>statistics.variance\<close> (the sample variance) and \<^verbatim>\<open>statistics.stdev\<close>.
  Python raises \<^verbatim>\<open>StatisticsError\<close> on an empty list (\<open>mean\<close>) and on fewer than two points
  (\<open>variance\<close>, \<open>stdev\<close>); every call in the sources is guarded by a length test, which the
  callers below keep.
\<close>

definition mean :: "real list \<Rightarrow> real" where
  "mean xs = sum_list xs / real (length xs)"

definition variance :: "real list \<Rightarrow> real" where
  "variance xs = (\<Sum>x\<leftarrow>xs. (x - mean xs)\<^sup>2) / (real (length xs) - 1)"

definition stdev :: "real list \<Rightarrow> real" where
  "stdev xs = sqrt (variance xs)"

section \<open>Text analytics service\<close>

definition common_words :: "utext list" where
  "common_words = map str
     [''the'', ''be'', ''to'', ''of'', ''and'', ''a'', ''in'', ''that'', ''have'', ''i'',
      ''it'', ''for'', ''not'', ''on'', ''with'', ''he'', ''as'', ''you'', ''do'', ''at'',
      ''this'', ''but'', ''his'', ''by'', ''from'', ''they'', ''we'', ''say'', ''her'', ''she'',
      ''or'', ''an'', ''will'', ''my'', ''one'', ''all'', ''would'', ''there'', ''their'',
      ''what'', ''so'', ''up'', ''out'', ''if'', ''about'', ''who'', ''get'', ''which'', ''go'']"

definition formal_indicators :: "utext list" where
  "formal_indicators = map str
     [''utilize'', ''implement'', ''facilitate'', ''demonstrate'', ''comprehensive'',
      ''significant'', ''substantial'', ''considerable'', ''numerous'', ''various'',
      ''furthermore'', ''moreover'', ''additionally'', ''consequently'', ''therefore'',
      ''subsequently'', ''nevertheless'', ''however'', ''nonetheless'', ''accordingly'']"

definition transition_words :: "utext list" where
  "transition_words = map str
     [''however'', ''furthermore'', ''moreover'', ''additionally'', ''consequently'',
      ''therefore'', ''subsequently'', ''nevertheless'', ''nonetheless'', ''accordingly'']"

subsection \<open>Readability\<close>

record readability =
  flesch_reading_ease :: real
  flesch_kincaid_grade :: real
  automated_readability_index :: real
  coleman_liau_index :: real
  average_grade_level :: real
  readability_level :: string

definition get_readability_level :: "real \<Rightarrow> string" where
  "get_readability_level flesch_score =
     (if flesch_score \<ge> 90 then ''very_easy''
      else if flesch_score \<ge> 80 then ''easy''
      else if flesch_score \<ge> 70 then ''fairly_easy''
      else if flesch_score \<ge> 60 then ''standard''
      else if flesch_score \<ge> 50 then ''fairly_difficult''
      else if flesch_score \<ge> 30 then ''difficult''
      else ''very_difficult'')"

definition calculate_readability :: "ucd \<Rightarrow> utext \<Rightarrow> string + readability" where
  "calculate_readability U text =
     (let sentences = split_sentences text;
          words = split_words U text;
          syllables = real (sum_list (map (count_syllables U) words));
          sentence_count = real (length sentences);
          word_count = real (length words)
      in if sentence_count = 0 \<or> word_count = 0
         then Inl ''Insufficient text for readability analysis''
         else
           let flesch_ease = 206.835 - (1.015 * (word_count / sentence_count))
                               - (84.6 * (syllables / word_count));
               flesch_ease = max 0 (min 100 flesch_ease);
               flesch_kincaid = (0.39 * (word_count / sentence_count))
                                  + (11.8 * (syllables / word_count)) - 15.59;
               flesch_kincaid = max 0 flesch_kincaid;
               characters = real (sum_list (map length words));
               ari = (4.71 * (characters / word_count)) + (0.5 * (word_count / sentence_count))
                       - 21.43;
               ari = max 0 ari;
               l = (characters / word_count) * 100;
               s = (sentence_count / word_count) * 100;
               coleman_liau = (0.0588 * l) - (0.296 * s) - 15.8;
               coleman_liau = max 0 coleman_liau;
               avg_grade = (flesch_kincaid + ari + coleman_liau) / 3
           in Inr \<lparr>flesch_reading_ease = py_round flesch_ease 2,
                    flesch_kincaid_grade = py_round flesch_kincaid 2,
                    automated_readability_index = py_round ari 2,
                    coleman_liau_index = py_round coleman_liau 2,
                    average_grade_level = py_round avg_grade 2,
                    readability_level = get_readability_level flesch_ease\<rparr>)"

subsection \<open>Complexity\<close>

record complexity =
  complex_word_ratio :: real
  average_sentence_length :: real
  sentence_length_variance :: real
  formal_word_ratio :: real
  punctuation_density :: real
  complexity_score :: real

definition sentence_lengths :: "ucd \<Rightarrow> utext list \<Rightarrow> real list" where
  "sentence_lengths U sentences = map (\<lambda>sentence. real (length (split_words U sentence))) sentences"

definition analyze_complexity :: "ucd \<Rightarrow> utext \<Rightarrow> complexity" where
  "analyze_complexity U text =
     (let words = split_words U text;
          sentences = split_sentences text;
          complex_words = filter (\<lambda>word. length word > 6) words;
          complex_word_ratio =
            (if words \<noteq> [] then real (length complex_words) / real (length words) else 0);
          lengths = sentence_lengths U sentences;
          avg_sentence_length = (if lengths \<noteq> [] then mean lengths else 0);
          sentence_length_variance = (if length lengths > 1 then variance lengths else 0);
          formal_word_count = length (filter (\<lambda>word. lower U word \<in> set formal_indicators) words);
          formal_word_ratio =
            (if words \<noteq> [] then real formal_word_count / real (length words) else 0);
          punctuation_marks = findall_punctuation text;
          punctuation_density =
            (if words \<noteq> [] then real (length punctuation_marks) / real (length words) else 0)
      in \<lparr>complex_word_ratio = py_round complex_word_ratio 3,
          average_sentence_length = py_round avg_sentence_length 2,
          sentence_length_variance = py_round sentence_length_variance 2,
          formal_word_ratio = py_round formal_word_ratio 3,
          punctuation_density = py_round punctuation_density 3,
          complexity_score =
            py_round ((complex_word_ratio + formal_word_ratio + punctuation_density) * 100) 2\<rparr>)"

subsection \<open>AI indicators\<close>

record ai_indicators =
  formal_language_ratio :: real
  repetition_score :: real
  sentence_uniformity :: real
  transition_word_ratio :: real
  ai_likelihood_score :: real
  ai_likelihood_level :: string

definition get_ai_likelihood_level :: "real \<Rightarrow> string" where
  "get_ai_likelihood_level ai_score =
     (if ai_score \<ge> 80 then ''very_high''
      else if ai_score \<ge> 60 then ''high''
      else if ai_score \<ge> 40 then ''moderate''
      else if ai_score \<ge> 20 then ''low''
      else ''very_low'')"

text \<open>
  \<^verbatim>\<open>d[word] = d.get(word, 0) + 1\<close> on a dict kept as an association list in insertion order.
\<close>

fun count_up :: "'a \<Rightarrow> ('a \<times> nat) list \<Rightarrow> ('a \<times> nat) list" where
  "count_up word [] = [(word, 1)]"
| "count_up word ((k, n) # d) = (if k = word then (k, n + 1) # d else (k, n) # count_up word d)"

definition word_frequency :: "utext list \<Rightarrow> (utext \<times> nat) list" where
  "word_frequency words =
     fold (\<lambda>word d. if word \<notin> set common_words \<and> length word > 3 then count_up word d else d)
       words []"

definition analyze_ai_indicators :: "ucd \<Rightarrow> utext \<Rightarrow> ai_indicators" where
  "analyze_ai_indicators U text =
     (let words = map (lower U) (split_words U text);
          sentences = split_sentences text;
          formal_count = length (filter (\<lambda>word. word \<in> set formal_indicators) words);
          formal_ratio = (if words \<noteq> [] then real formal_count / real (length words) else 0);
          freq = word_frequency words;
          repeated_words = length (filter (\<lambda>(word, count). count > 2) freq);
          repetition_score =
            (if freq \<noteq> [] then real repeated_words / real (length freq) else 0);
          lengths = sentence_lengths U sentences;
          length_variance = (if length lengths > 1 then variance lengths else 0);
          uniformity_score = (if length_variance > 0 then 1 / (1 + length_variance) else 1);
          transition_count = length (filter (\<lambda>word. word \<in> set transition_words) words);
          transition_ratio =
            (if sentences \<noteq> [] then real transition_count / real (length sentences) else 0);
          ai_score = (formal_ratio * 0.3 + repetition_score * 0.2
                        + uniformity_score * 0.3 + min transition_ratio 1 * 0.2) * 100
      in \<lparr>formal_language_ratio = py_round formal_ratio 3,
          repetition_score = py_round repetition_score 3,
          sentence_uniformity = py_round uniformity_score 3,
          transition_word_ratio = py_round transition_ratio 3,
          ai_likelihood_score = py_round ai_score 2,
          ai_likelihood_level = get_ai_likelihood_level ai_score\<rparr>)"

subsection \<open>Burstiness\<close>

record burstiness =
  sentence_count :: nat
  mean_sentence_length :: real
  length_variance :: real
  length_standard_deviation :: real
  coefficient_of_variation :: real
  complexity_variance :: real
  burstiness_score :: real
  burstiness_level :: string

definition get_burstiness_level :: "real \<Rightarrow> string" where
  "get_burstiness_level score =
     (if score \<ge> 80 then ''very_high''
      else if score \<ge> 60 then ''high''
      else if score \<ge> 40 then ''moderate''
      else if score \<ge> 20 then ''low''
      else ''very_low'')"

definition sentence_complexity :: "ucd \<Rightarrow> utext \<Rightarrow> real" where
  "sentence_complexity U sentence =
     (let words = split_words U sentence;
          complex_words = length (filter (\<lambda>word. length word > 6) words);
          punctuation = length (findall_punctuation sentence)
      in if words \<noteq> [] then real (complex_words + punctuation) / real (length words) else 0)"

definition analyze_burstiness :: "ucd \<Rightarrow> utext \<Rightarrow> string + burstiness" where
  "analyze_burstiness U text =
     (let sentences = split_sentences text;
          lengths = sentence_lengths U sentences
      in if length lengths < 2
         then Inl ''Insufficient sentences for burstiness analysis''
         else
           let mean_length = mean lengths;
               length_variance = variance lengths;
               length_std = stdev lengths;
               coefficient_of_variation = (if mean_length > 0 then length_std / mean_length else 0);
               complexity_scores = map (sentence_complexity U) sentences;
               complexity_variance =
                 (if length complexity_scores > 1 then variance complexity_scores else 0);
               score = (coefficient_of_variation + complexity_variance) * 50;
               score = min 100 score
           in Inr \<lparr>sentence_count = length sentences,
                    mean_sentence_length = py_round mean_length 2,
                    length_variance = py_round length_variance 2,
                    length_standard_deviation = py_round length_std 2,
                    coefficient_of_variation = py_round coefficient_of_variation 3,
                    complexity_variance = py_round complexity_variance 3,
                    burstiness_score = py_round score 2,
                    burstiness_level = get_burstiness_level score\<rparr>)"

subsection \<open>Perplexity\<close>

record perplexity =
  estimated_perplexity :: real
  perplexity_entropy :: real
  vocabulary_richness :: real
  unique_word_ratio :: real
  perplexity_level :: string

definition get_perplexity_level :: "real \<Rightarrow> string" where
  "get_perplexity_level perplexity =
     (if perplexity \<ge> 100 then ''very_high''
      else if perplexity \<ge> 50 then ''high''
      else if perplexity \<ge> 20 then ''moderate''
      else if perplexity \<ge> 10 then ''low''
      else ''very_low'')"

text \<open>
  \<^verbatim>\<open>_estimate_perplexity\<close>. The entropy is summed over the words of the text, one term for
  each occurrence, so it grows with the length of the text. \<^verbatim>\<open>2 ** entropy\<close> on floats raises
  \<^verbatim>\<open>OverflowError\<close> when the power is beyond the largest float, which is when the entropy is
  1024 or more; \<open>overflow_error\<close> is \<^verbatim>\<open>str(e)\<close> of that exception. The result is \<open>Inl\<close> of the
  message when the function raises, and otherwise what it returns: the dictionary with the
  \<^verbatim>\<open>'error'\<close> key (\<open>Inr (Inl e)\<close>) or the metrics.
\<close>

definition overflow_error :: string where
  "overflow_error = ''(34, '' @ [CHR 0x27] @ ''Numerical result out of range'' @ [CHR 0x27] @ '')''"

definition word_entropy :: "utext list \<Rightarrow> real" where
  "word_entropy words =
     (let total_words = length words;
          probabilities = map (\<lambda>word. real (count_list words word) / real total_words) words
      in - (\<Sum>p\<leftarrow>filter (\<lambda>p. p > 0) probabilities. p * log 2 p))"

definition estimate_perplexity :: "ucd \<Rightarrow> utext \<Rightarrow> string + (string + perplexity)" where
  "estimate_perplexity U text =
     (let words = map (lower U) (split_words U text)
      in if length words < 2 then Inr (Inl ''Insufficient text for perplexity estimation'')
         else
           let total_words = length words;
               entropy = word_entropy words
           in if 1024 \<le> entropy then Inl overflow_error
              else
                let perplexity = 2 powr entropy;
                    unique_words = card (set words);
                    vocabulary_richness = real unique_words / real total_words
                in Inr (Inr \<lparr>estimated_perplexity = py_round perplexity 2,
                              perplexity_entropy = py_round entropy 3,
                              vocabulary_richness = py_round vocabulary_richness 3,
                              unique_word_ratio =
                                py_round (real unique_words / real total_words) 3,
                              perplexity_level = get_perplexity_level perplexity\<rparr>))"

subsection \<open>Overall humanness score\<close>

record component_scores =
  cs_readability :: real
  cs_complexity :: real
  cs_anti_ai :: real
  cs_burstiness :: real

record overall_score =
  overall_humanness_score :: real
  humanness_level :: string
  components :: component_scores

definition get_humanness_level :: "real \<Rightarrow> string" where
  "get_humanness_level score =
     (if score \<ge> 85 then ''very_human''
      else if score \<ge> 70 then ''mostly_human''
      else if score \<ge> 55 then ''somewhat_human''
      else if score \<ge> 40 then ''mixed''
      else if score \<ge> 25 then ''somewhat_ai''
      else ''likely_ai'')"

text \<open>
  \<^verbatim>\<open>_calculate_overall_score\<close>. \<^verbatim>\<open>d.get(key, 50)\<close> on a group that reported an error is 50; the
  complexity and AI-indicator groups always carry their score. The \<^verbatim>\<open>except\<close> branch of the
  source (every component 50) is reached only when the arithmetic raises, which it does not
  on numbers; it has no counterpart here.
\<close>

definition calculate_overall_score ::
  "string + readability \<Rightarrow> complexity \<Rightarrow> ai_indicators \<Rightarrow> string + burstiness \<Rightarrow> overall_score" where
  "calculate_overall_score readability complexity ai burstiness =
     (let readability_score =
            min 100 (max 0 (case readability of Inl e \<Rightarrow> 50 | Inr r \<Rightarrow> flesch_reading_ease r));
          complexity_score' = min 100 (complexity_score complexity);
          ai_score = 100 - ai_likelihood_score ai;
          burstiness_score' = (case burstiness of Inl e \<Rightarrow> 50 | Inr b \<Rightarrow> burstiness_score b);
          overall = readability_score * 0.25 + complexity_score' * 0.25
                      + ai_score * 0.3 + burstiness_score' * 0.2
      in \<lparr>overall_humanness_score = py_round overall 2,
          humanness_level = get_humanness_level overall,
          components = \<lparr>cs_readability = py_round readability_score 2,
                         cs_complexity = py_round complexity_score' 2,
                         cs_anti_ai = py_round ai_score 2,
                         cs_burstiness = py_round burstiness_score' 2\<rparr>\<rparr>)"

text \<open>
  \<^verbatim>\<open>analyze_text\<close>. The body is one \<^verbatim>\<open>try\<close> block: an exception of a group computation ends
  the analysis, and the answer is the failure dictionary with the message
  \<^verbatim>\<open>Text analysis failed:\<close> and \<^verbatim>\<open>str(e)\<close> (\<open>Inl\<close>), which carries no score. The perplexity
  estimate is the only group computation that can raise: in the others each division and
  each \<^verbatim>\<open>statistics\<close> call is guarded. The groups \<^verbatim>\<open>basic_stats\<close> and \<^verbatim>\<open>sentiment\<close> of the report
  neither raise nor feed the overall score and are left out of the record.
\<close>

record analysis_report =
  rep_readability :: "string + readability"
  rep_complexity :: complexity
  rep_ai_indicators :: ai_indicators
  rep_burstiness :: "string + burstiness"
  rep_perplexity :: "string + perplexity"
  rep_overall_score :: overall_score

definition analyze_text :: "ucd \<Rightarrow> utext \<Rightarrow> string + analysis_report" where
  "analyze_text U text =
     (let readability = calculate_readability U text;
          complexity = analyze_complexity U text;
          ai = analyze_ai_indicators U text;
          burstiness = analyze_burstiness U text
      in case estimate_perplexity U text of
           Inl e \<Rightarrow> Inl (''Text analysis failed: '' @ e)
         | Inr perplexity \<Rightarrow>
             Inr \<lparr>rep_readability = readability,
                  rep_complexity = complexity,
                  rep_ai_indicators = ai,
                  rep_burstiness = burstiness,
                  rep_perplexity = perplexity,
                  rep_overall_score =
                    calculate_overall_score readability complexity ai burstiness\<rparr>)"

section \<open>Text comparison service\<close>

subsection \<open>Basic statistics\<close>

text \<open>
  \<^verbatim>\<open>_get_text_stats\<close>; the fields are the keys \<^verbatim>\<open>characters\<close>, \<^verbatim>\<open>characters_no_spaces\<close>, \<^verbatim>\<open>words\<close>,
  \<^verbatim>\<open>sentences\<close> and \<^verbatim>\<open>paragraphs\<close>. The sentence count is the number of pieces of the split
  minus one.
\<close>

record text_stats =
  ts_characters :: nat
  ts_characters_no_spaces :: nat
  ts_words :: nat
  ts_sentences :: int
  ts_paragraphs :: nat

definition get_text_stats :: "ucd \<Rightarrow> utext \<Rightarrow> text_stats" where
  "get_text_stats U text =
     \<lparr>ts_characters = length text,
      ts_characters_no_spaces = length (filter (\<lambda>c. c \<noteq> 32) text),
      ts_words = length (findall_words U text),
      ts_sentences = int (length (re_split_terminators text)) - 1,
      ts_paragraphs = paragraph_count text\<rparr>"

record stats_changes =
  character_change :: int
  word_change :: int
  sentence_change :: int
  character_change_percent :: real
  word_change_percent :: real

record basic_comparison =
  bc_original :: text_stats
  bc_humanized :: text_stats
  bc_changes :: stats_changes

definition compare_basic_stats :: "ucd \<Rightarrow> utext \<Rightarrow> utext \<Rightarrow> basic_comparison" where
  "compare_basic_stats U original humanized =
     (let original_stats = get_text_stats U original;
          humanized_stats = get_text_stats U humanized
      in \<lparr>bc_original = original_stats,
          bc_humanized = humanized_stats,
          bc_changes =
            \<lparr>character_change =
               int (ts_characters humanized_stats) - int (ts_characters original_stats),
             word_change = int (ts_words humanized_stats) - int (ts_words original_stats),
             sentence_change = ts_sentences humanized_stats - ts_sentences original_stats,
             character_change_percent =
               (if ts_characters original_stats > 0
                then py_round
                       (((real (ts_characters humanized_stats)
                            - real (ts_characters original_stats))
                           / real (ts_characters original_stats)) * 100) 2
                else 0),
             word_change_percent =
               (if ts_words original_stats > 0
                then py_round
                       (((real (ts_words humanized_stats) - real (ts_words original_stats))
                           / real (ts_words original_stats)) * 100) 2
                else 0)\<rparr>\<rparr>)"

section \<open>Humanizer\<close>

record target_percentages =
  ai_generated :: int
  human_written :: int

definition targets :: "(utext \<times> target_percentages) list" where
  "targets = [(str ''fast'', \<lparr>ai_generated = 75, human_written = 25\<rparr>),
              (str ''balanced'', \<lparr>ai_generated = 50, human_written = 50\<rparr>),
              (str ''aggressive'', \<lparr>ai_generated = 0, human_written = 100\<rparr>)]"

definition get_target_percentages :: "utext \<Rightarrow> target_percentages" where
  "get_target_percentages mode =
     (case map_of targets mode of
        Some t \<Rightarrow> t
      | None \<Rightarrow> \<lparr>ai_generated = 50, human_written = 50\<rparr>)"

definition intensities :: "(utext \<times> real) list" where
  "intensities = [(str ''fast'', 0.4), (str ''balanced'', 0.7), (str ''aggressive'', 1.0)]"

definition calculate_humanization_intensity :: "utext \<Rightarrow> real" where
  "calculate_humanization_intensity mode =
     (case map_of intensities mode of Some i \<Rightarrow> i | None \<Rightarrow> 0.7)"

subsection \<open>The clean-up of formatting (step 11 of \<^verbatim>\<open>humanize_text\<close>)\<close>

text \<open>
  The four substitutions and the final \<^verbatim>\<open>strip()\<close>. \<^verbatim>\<open>re.sub\<close> scans left to right, replaces
  the leftmost match and goes on after it; a position where the pattern does not match
  keeps its character. All four patterns are greedy and match at least one character.
  \<^item> \<^verbatim>\<open>re.sub(r'\s+', ' ', s)\<close>: a maximal run of whitespace becomes one space.
  \<^item> \<^verbatim>\<open>re.sub(r'\.+', '.', s)\<close>: a maximal run of periods becomes one period.
  \<^item> \<^verbatim>\<open>re.sub(r',\s*,', ',', s)\<close>: a comma, the whitespace after it and a second comma
    become one comma; the scan goes on after the second comma.
  \<^item> \<^verbatim>\<open>re.sub(r'\s*X\s*', ' X ', s)\<close> with X the em-dash U+2014: the whitespace around an
    em-dash becomes one space on each side.
\<close>

function sub_whitespace :: "utext \<Rightarrow> utext" where
  "sub_whitespace [] = []"
| "sub_whitespace (c # cs) =
     (if is_space c then 32 # sub_whitespace (dropWhile is_space cs) else c # sub_whitespace cs)"
  by pat_completeness auto
termination
  by (relation "measure length") (auto simp: less_Suc_eq_le length_dropWhile_le)

function sub_periods :: "utext \<Rightarrow> utext" where
  "sub_periods [] = []"
| "sub_periods (c # cs) =
     (if c = 46 then 46 # sub_periods (dropWhile (\<lambda>d. d = 46) cs) else c # sub_periods cs)"
  by pat_completeness auto
termination
  by (relation "measure length") (auto simp: less_Suc_eq_le length_dropWhile_le)

function sub_commas :: "utext \<Rightarrow> utext" where
  "sub_commas [] = []"
| "sub_commas (c # cs) =
     (if c = 44
      then (case dropWhile is_space cs of
              [] \<Rightarrow> c # sub_commas cs
            | d # ds \<Rightarrow> if d = 44 then 44 # sub_commas ds else c # sub_commas cs)
      else c # sub_commas cs)"
  by pat_completeness auto
termination
proof (relation "measure length")
  show "wf (measure length)" by simp
next
  fix c :: nat and cs d ds
  assume "dropWhile is_space cs = d # ds"
  then have "length (d # ds) \<le> length cs"
    using length_dropWhile_le[of is_space cs] by simp
  then show "(ds, c # cs) \<in> measure length" by simp
qed auto

function sub_emdash :: "utext \<Rightarrow> utext" where
  "sub_emdash [] = []"
| "sub_emdash (c # cs) =
     (case dropWhile is_space (c # cs) of
        [] \<Rightarrow> c # sub_emdash cs
      | d # ds \<Rightarrow> if d = 8212 then [32, 8212, 32] @ sub_emdash (dropWhile is_space ds)
                 else c # sub_emdash cs)"
  by pat_completeness auto
termination
proof (relation "measure length")
  show "wf (measure length)" by simp
next
  fix c :: nat and cs d ds
  assume a: "dropWhile is_space (c # cs) = d # ds"
  have "length (d # ds) \<le> length (c # cs)"
    using length_dropWhile_le[of is_space "c # cs"] a by simp
  moreover have "length (dropWhile is_space ds) \<le> length ds" by (rule length_dropWhile_le)
  ultimately show "(dropWhile is_space ds, c # cs) \<in> measure length" by simp
qed auto

declare sub_whitespace.simps [simp del] sub_periods.simps [simp del]
  sub_commas.simps [simp del] sub_emdash.simps [simp del]

definition cleanup_formatting :: "utext \<Rightarrow> utext" where
  "cleanup_formatting humanized =
     strip (sub_emdash (sub_commas (sub_periods (sub_whitespace humanized))))"

subsection \<open>\<^verbatim>\<open>UltimateEnhancedHumanizer.humanize_text\<close>\<close>

text \<open>
  Steps 1 to 10 (the calls to the external services and the randomised rewriting passes)
  are the parameter \<open>passes\<close>: from the text, the mode and the intensity they give the
  rewritten text and the per-service results, or raise (\<open>Inl\<close> the message).
\<close>

type_synonym 'sr pipeline = "utext \<Rightarrow> utext \<Rightarrow> real \<Rightarrow> string + (utext \<times> 'sr)"

definition humanize_text ::
  "'sr pipeline \<Rightarrow> utext \<Rightarrow> utext \<Rightarrow> string + (utext \<times> target_percentages \<times> 'sr)" where
  "humanize_text passes text mode =
     (let intensity = calculate_humanization_intensity mode;
          target = get_target_percentages mode
      in case passes text mode intensity of
           Inl e \<Rightarrow> Inl e
         | Inr (humanized, service_results) \<Rightarrow>
             Inr (cleanup_formatting humanized, target, service_results))"

subsection \<open>Simulated achieved percentages\<close>

text \<open>
  The statements after \<^verbatim>\<open>variation = random.uniform(-3, 3)\<close>, which the route
  \<^verbatim>\<open>/api/humanize\<close> and \<^verbatim>\<open>_process_single_text\<close> of the batch service both carry word for word.
  \<open>variation\<close> is the float that was drawn; every operation is a binary64 operation. The
  result is the pair before the final \<^verbatim>\<open>round(x, 1)\<close> of each side.
\<close>

definition achieved_percentages :: "target_percentages \<Rightarrow> real \<Rightarrow> real \<times> real" where
  "achieved_percentages target_percentages variation =
     (let achieved_ai =
            max 0 (min 100 (fadd (real_of_int (ai_generated target_percentages)) variation));
          achieved_human =
            max 0 (min 100 (fsub (real_of_int (human_written target_percentages)) variation));
          total = fadd achieved_ai achieved_human
      in if total > 0
         then (fmul (fdiv achieved_ai total) 100, fmul (fdiv achieved_human total) 100)
         else (achieved_ai, achieved_human))"

subsection \<open>The route \<^verbatim>\<open>/api/humanize\<close>\<close>

record humanize_request =
  req_text :: "utext option"
  req_mode :: "utext option"

record 'sr humanize_response =
  humanizedText :: utext
  resp_mode :: utext
  targetAIScore :: int
  targetHumanScore :: int
  achievedAIScore :: real
  achievedHumanScore :: real
  processingTime :: real
  originalLength :: nat
  humanizedLength :: nat
  serviceResults :: 'sr

text \<open>
  \<open>data\<close> is the JSON body (\<open>None\<close> when there is none); \<open>variation\<close> is the random draw and
  \<open>elapsed\<close> the seconds between the two clock readings. An error response is \<open>Inl\<close> of the
  HTTP status and the message.
\<close>

definition humanize_text_route ::
  "ucd \<Rightarrow> 'sr pipeline \<Rightarrow> real \<Rightarrow> real \<Rightarrow> humanize_request option
     \<Rightarrow> (nat \<times> string) + 'sr humanize_response" where
  "humanize_text_route U passes variation elapsed data =
     (case data of
        None \<Rightarrow> Inl (400, ''No text provided'')
      | Some d \<Rightarrow>
          (case req_text d of
             None \<Rightarrow> Inl (400, ''No text provided'')
           | Some text \<Rightarrow>
               let mode = lower U (case req_mode d of None \<Rightarrow> str ''balanced'' | Some m \<Rightarrow> m)
               in if strip text = [] then Inl (400, ''Empty text provided'')
                  else
                    (case humanize_text passes text mode of
                       Inl e \<Rightarrow> Inl (500, ''Processing failed: '' @ e)
                     | Inr (humanized_text, target_percentages, service_results) \<Rightarrow>
                         let processing_time = fmul elapsed 1000;
                             (achieved_ai, achieved_human) =
                               achieved_percentages target_percentages variation
                         in Inr \<lparr>humanizedText = humanized_text,
                                  resp_mode = mode,
                                  targetAIScore = ai_generated target_percentages,
                                  targetHumanScore = human_written target_percentages,
                                  achievedAIScore = float_round achieved_ai 1,
                                  achievedHumanScore = float_round achieved_human 1,
                                  processingTime = float_round processing_time 1,
                                  originalLength = length text,
                                  humanizedLength = length humanized_text,
                                  serviceResults = service_results\<rparr>)))"

section \<open>Batch processing service\<close>

subsection \<open>Job records\<close>

datatype batch_status = Processing | Completed | Failed

record batch_info =
  total :: nat
  completed :: nat
  failed :: nat
  start_time :: real
  status :: batch_status
  end_time :: "real option"
  error :: "utext option"

type_synonym job_table = "utext \<rightharpoonup> batch_info"

text \<open>
  \<^verbatim>\<open>cleanup_old_batches\<close>: the first loop collects the ids whose age exceeds the threshold,
  the second deletes them. \<open>current_time\<close> is the reading of \<^verbatim>\<open>time.time()\<close>.
\<close>

definition cleanup_old_batches :: "real \<Rightarrow> real \<Rightarrow> job_table \<Rightarrow> job_table" where
  "cleanup_old_batches current_time max_age_hours active_batches =
     (let max_age_seconds = max_age_hours * 3600
      in (\<lambda>batch_id.
            case active_batches batch_id of
              None \<Rightarrow> None
            | Some info \<Rightarrow>
                if current_time - start_time info > max_age_seconds then None else Some info))"


subsection \<open>Per-item results\<close>

record 'sr item_success =
  humanized_text :: utext
  item_mode :: utext
  target_ai_score :: int
  target_human_score :: int
  achieved_ai_score :: real
  achieved_human_score :: real
  processing_time_ms :: real
  original_length :: nat
  humanized_length :: nat
  service_results :: 'sr

datatype 'sr item_outcome = Success "'sr item_success" | Failure string

record 'sr item_result =
  index :: nat
  original_text :: utext
  outcome :: "'sr item_outcome"

definition success :: "'sr item_result \<Rightarrow> bool" where
  "success r = (case outcome r of Success x \<Rightarrow> True | Failure e \<Rightarrow> False)"

text \<open>
  \<^verbatim>\<open>_process_single_text\<close>: every exception of the humanizer is caught and reported as a failed
  item. \<open>variation\<close> is the random draw, \<open>elapsed\<close> the seconds between the clock readings.
\<close>

definition process_single_text ::
  "'sr pipeline \<Rightarrow> real \<Rightarrow> real \<Rightarrow> utext \<Rightarrow> utext \<Rightarrow> nat \<Rightarrow> 'sr item_result" where
  "process_single_text passes variation elapsed text mode i =
     (case humanize_text passes text mode of
        Inl e \<Rightarrow> \<lparr>index = i, original_text = text, outcome = Failure e\<rparr>
      | Inr (humanized, target_percentages, results) \<Rightarrow>
          let processing_time = fmul elapsed 1000;
              (achieved_ai, achieved_human) = achieved_percentages target_percentages variation
          in \<lparr>index = i, original_text = text,
              outcome = Success
                \<lparr>humanized_text = humanized,
                 item_mode = mode,
                 target_ai_score = ai_generated target_percentages,
                 target_human_score = human_written target_percentages,
                 achieved_ai_score = float_round achieved_ai 1,
                 achieved_human_score = float_round achieved_human 1,
                 processing_time_ms = float_round processing_time 1,
                 original_length = length text,
                 humanized_length = length humanized,
                 service_results = results\<rparr>\<rparr>)"

subsection \<open>The worker pool\<close>

text \<open>
  What a batch run takes from outside: three clock readings, the order in which
  \<^verbatim>\<open>as_completed\<close> yields the futures (each submitted index once), and for each item its
  rewriting passes, its random draw and its processing time.
\<close>

record 'sr batch_env =
  id_clock :: real
  start_clock :: real
  end_clock :: real
  completion_order :: "nat list"
  item_passes :: "nat \<Rightarrow> 'sr pipeline"
  item_variation :: "nat \<Rightarrow> real"
  item_elapsed :: "nat \<Rightarrow> real"

text \<open>
  The body of the loop over \<^verbatim>\<open>as_completed\<close>: \<open>fr\<close> is what \<^verbatim>\<open>future.result()\<close> gives for the
  future of index \<open>i\<close>, a result or (\<open>Inl\<close>) the message of an exception.
\<close>

definition collect_result ::
  "utext list \<Rightarrow> utext \<Rightarrow> (nat \<Rightarrow> string + 'sr item_result) \<Rightarrow> nat
     \<Rightarrow> 'sr item_result list \<times> job_table \<Rightarrow> 'sr item_result list \<times> job_table" where
  "collect_result texts batch_id fr i st =
     (case st of (results, active_batches) \<Rightarrow>
        (case fr i of
           Inr result0 \<Rightarrow>
             let result = result0\<lparr>index := i\<rparr>
             in (results @ [result],
                 (case active_batches batch_id of
                    None \<Rightarrow> active_batches
                  | Some info \<Rightarrow>
                      if success result
                      then active_batches(batch_id \<mapsto> info\<lparr>completed := completed info + 1\<rparr>)
                      else active_batches(batch_id \<mapsto> info\<lparr>failed := failed info + 1\<rparr>)))
         | Inl e \<Rightarrow>
             (results @ [\<lparr>index = i,
                           original_text = (if i < length texts then texts ! i else []),
                           outcome = Failure e\<rparr>],
              (case active_batches batch_id of
                 None \<Rightarrow> active_batches
               | Some info \<Rightarrow> active_batches(batch_id \<mapsto> info\<lparr>failed := failed info + 1\<rparr>)))))"

definition process_texts_parallel ::
  "'sr batch_env \<Rightarrow> utext list \<Rightarrow> utext \<Rightarrow> utext \<Rightarrow> job_table
     \<Rightarrow> 'sr item_result list \<times> job_table" where
  "process_texts_parallel env texts mode batch_id active_batches =
     (let fr = (\<lambda>i. Inr (process_single_text (item_passes env i) (item_variation env i)
                            (item_elapsed env i) (texts ! i) mode i));
          (results, active_batches) =
            fold (collect_result texts batch_id fr) (completion_order env) ([], active_batches)
      in (sort_key index results, active_batches))"

subsection \<open>\<^verbatim>\<open>process_batch\<close>\<close>

function decimal :: "nat \<Rightarrow> utext" where
  "decimal n = (if n < 10 then [48 + n] else decimal (n div 10) @ [48 + n mod 10])"
  by pat_completeness auto
termination
  by (relation "measure id") auto

declare decimal.simps [simp del]

definition generated_batch_id :: "real \<Rightarrow> utext" where
  "generated_batch_id clock =
     (let ms = (if clock * 1000 \<ge> 0 then \<lfloor>clock * 1000\<rfloor> else \<lceil>clock * 1000\<rceil>)
      in str ''batch_'' @ (if ms < 0 then 45 # decimal (nat (- ms)) else decimal (nat ms)))"

record 'sr batch_response =
  resp_batch_id :: utext
  total_texts :: nat
  successful :: nat
  failed_count :: nat
  results :: "'sr item_result list"
  processing_time :: real

text \<open>
  The result is the returned dictionary (\<open>Inl\<close> the \<^verbatim>\<open>'error'\<close> of a failure dictionary) and
  the job table after the call. The \<^verbatim>\<open>batch_statistics\<close> entry of the success dictionary is
  left out: \<^verbatim>\<open>_calculate_batch_statistics\<close> reads the results only and catches its own
  exceptions.
\<close>

definition process_batch ::
  "'sr batch_env \<Rightarrow> utext list \<Rightarrow> utext \<Rightarrow> utext option \<Rightarrow> job_table
     \<Rightarrow> (string + 'sr batch_response) \<times> job_table" where
  "process_batch env texts mode batch_id0 active_batches =
     (if texts = [] then (Inl ''No texts provided for batch processing'', active_batches)
      else if length texts > 50
      then (Inl ''Batch size too large. Maximum 50 texts allowed.'', active_batches)
      else
        let batch_id = (case batch_id0 of
                          None \<Rightarrow> generated_batch_id (id_clock env)
                        | Some b \<Rightarrow> if b = [] then generated_batch_id (id_clock env) else b);
            active_batches = active_batches(batch_id \<mapsto>
              \<lparr>total = length texts, completed = 0, failed = 0, start_time = start_clock env,
               status = Processing, end_time = None, error = None\<rparr>);
            (results, active_batches) =
              process_texts_parallel env texts mode batch_id active_batches
        in case active_batches batch_id of
             None \<Rightarrow> (Inl ''Batch processing failed: KeyError'', active_batches)
           | Some info \<Rightarrow>
               let info = info\<lparr>status := Completed, end_time := Some (end_clock env)\<rparr>;
                   active_batches = active_batches(batch_id \<mapsto> info);
                   successful_results = filter success results;
                   failed_results = filter (\<lambda>r. \<not> success r) results
               in (Inr \<lparr>resp_batch_id = batch_id,
                        total_texts = length texts,
                        successful = length successful_results,
                        failed_count = length failed_results,
                        results = results,
                        processing_time = end_clock env - start_time info\<rparr>,
                   active_batches))"

subsection \<open>\<^verbatim>\<open>get_batch_status\<close>\<close>

record batch_status_info =
  batch :: batch_info
  progress_percentage :: real
  estimated_remaining_seconds :: "real option"

definition get_batch_status :: "real \<Rightarrow> utext \<Rightarrow> job_table \<Rightarrow> string + batch_status_info" where
  "get_batch_status clock batch_id active_batches =
     (case active_batches batch_id of
        None \<Rightarrow> Inl ''Batch ID not found''
      | Some batch_info \<Rightarrow>
          let progress = (if total batch_info > 0
                          then (real (completed batch_info) / real (total batch_info)) * 100
                          else 0)
          in Inr \<lparr>batch = batch_info,
                   progress_percentage = py_round progress 2,
                   estimated_remaining_seconds =
                     (if completed batch_info > 0 \<and> status batch_info = Processing
                      then let elapsed_time = clock - start_time batch_info;
                               avg_time_per_text = elapsed_time / real (completed batch_info);
                               remaining_texts =
                                 real (total batch_info) - real (completed batch_info)
                           in Some (py_round (avg_time_per_text * remaining_texts) 2)
                      else None)\<rparr>)"

subsection \<open>The route \<^verbatim>\<open>/api/batch\<close>\<close>

record batch_request =
  req_texts :: "utext list option"
  req_batch_mode :: "utext option"
  req_batch_id :: "utext option"

definition valid_modes :: "utext list" where
  "valid_modes = [str ''fast'', str ''balanced'', str ''aggressive'']"

definition process_batch_route ::
  "ucd \<Rightarrow> 'sr batch_env \<Rightarrow> batch_request option \<Rightarrow> job_table
     \<Rightarrow> ((nat \<times> string) + (string + 'sr batch_response)) \<times> job_table" where
  "process_batch_route U env data active_batches =
     (case data of
        None \<Rightarrow> (Inl (400, ''No texts provided''), active_batches)
      | Some d \<Rightarrow>
          (case req_texts d of
             None \<Rightarrow> (Inl (400, ''No texts provided''), active_batches)
           | Some texts \<Rightarrow>
               let mode = lower U (case req_batch_mode d of
                                     None \<Rightarrow> str ''balanced'' | Some m \<Rightarrow> m)
               in if texts = [] then (Inl (400, ''Empty text list provided''), active_batches)
                  else if mode \<notin> set valid_modes
                  then (Inl (400, ''Invalid mode. Must be 'fast', 'balanced', or '' @ [CHR 0x27]
                               @ ''aggressive'' @ [CHR 0x27]),
                        active_batches)
                  else
                    (case process_batch env texts mode (req_batch_id d) active_batches of
                       (r, active_batches') \<Rightarrow> (Inr r, active_batches'))))"

chapter \<open>Properties\<close>

section \<open>Rounding\<close>

lemma rhe_cases:
  "round_half_even x = \<lfloor>x\<rfloor> \<or> round_half_even x = \<lfloor>x\<rfloor> + 1"
  by (simp add: round_half_even_def Let_def)

lemma rhe_lower: "x - 1 / 2 \<le> of_int (round_half_even x)"
  unfolding round_half_even_def Let_def by (auto; linarith)

lemma rhe_upper: "of_int (round_half_even x) \<le> x + 1 / 2"
  unfolding round_half_even_def Let_def by (auto; linarith)

lemma rhe_of_int [simp]: "round_half_even (of_int n) = n"
  by (simp add: round_half_even_def)

lemma rhe_mono:
  assumes "x \<le> y"
  shows "round_half_even x \<le> round_half_even y"
proof (cases "\<lfloor>x\<rfloor> < \<lfloor>y\<rfloor>")
  case True
  have "round_half_even x \<le> \<lfloor>x\<rfloor> + 1" using rhe_cases[of x] by auto
  also have "\<dots> \<le> \<lfloor>y\<rfloor>" using True by simp
  also have "\<dots> \<le> round_half_even y" using rhe_cases[of y] by auto
  finally show ?thesis .
next
  case False
  then have eq: "\<lfloor>x\<rfloor> = \<lfloor>y\<rfloor>" using assms floor_mono[of x y] by linarith
  show ?thesis
    using assms unfolding round_half_even_def Let_def eq by (auto; linarith)
qed

lemma rhe_add_even:
  assumes "even n"
  shows "round_half_even (x + of_int n) = round_half_even x + n"
  using assms unfolding round_half_even_def Let_def by (simp add: algebra_simps)

lemma rhe_neg: "round_half_even (- x) = - round_half_even x"
proof (cases "x = of_int \<lfloor>x\<rfloor>")
  case True
  then obtain n where "x = of_int n" by metis
  then show ?thesis
    by (metis of_int_minus rhe_of_int)
next
  case False
  then have fl: "\<lfloor>- x\<rfloor> = - \<lfloor>x\<rfloor> - 1"
    by (metis ceiling_altdef ceiling_def diff_minus_eq_add minus_diff_eq add.commute uminus_add_conv_diff floor_minus)
  have lt: "of_int \<lfloor>x\<rfloor> < x" using False by (metis floor_correct less_eq_real_def)
  show ?thesis
    unfolding round_half_even_def Let_def fl using lt
    by (auto simp: algebra_simps; linarith?)
qed


lemma py_round_mono: "x \<le> y \<Longrightarrow> py_round x n \<le> py_round y n"
  unfolding py_round_def
  by (intro divide_right_mono) (auto intro!: rhe_mono mult_right_mono)

lemma py_round_of_int [simp]: "py_round (of_int k) n = of_int k"
proof -
  have "of_int k * (10::real) ^ n = of_int (k * 10 ^ n)" by simp
  then show ?thesis unfolding py_round_def by (simp only: rhe_of_int) simp
qed

lemma py_round_0 [simp]: "py_round 0 n = 0"
  using py_round_of_int[of 0 n] by simp

lemma py_round_100 [simp]: "py_round 100 n = 100"
  using py_round_of_int[of 100 n] by simp

lemma py_round_1 [simp]: "py_round 1 n = 1"
  using py_round_of_int[of 1 n] by simp

lemma py_round_nonneg: "0 \<le> x \<Longrightarrow> 0 \<le> py_round x n"
  using py_round_mono[of 0 x n] by simp

lemma py_round_le_100: "x \<le> 100 \<Longrightarrow> py_round x n \<le> 100"
  using py_round_mono[of x 100 n] by simp

lemma rhe_complement: "round_half_even (1000 - y) = 1000 - round_half_even y"
proof -
  have "round_half_even (1000 - y) = round_half_even (- y + of_int 1000)" by simp
  also have "\<dots> = round_half_even (- y) + 1000" by (rule rhe_add_even) simp
  also have "\<dots> = 1000 - round_half_even y" by (simp add: rhe_neg)
  finally show ?thesis .
qed

lemma py_round_complement: "py_round (100 - x) (Suc 0) = 100 - py_round x (Suc 0)"
proof -
  have "(100 - x) * 10 = 1000 - x * 10" by simp
  then show ?thesis unfolding py_round_def by (simp add: rhe_complement diff_divide_distrib)
qed

subsection \<open>Binary floating point\<close>

lemma exponent_eqI:
  assumes "2 powr of_int e \<le> \<bar>x\<bar>" "\<bar>x\<bar> < 2 powr (of_int e + 1)"
  shows "exponent x = e"
proof -
  have pos: "0 < \<bar>x\<bar>" using assms(1) by (smt (verit) powr_gt_zero)
  have "of_int e \<le> log 2 \<bar>x\<bar>" using assms(1) pos by (simp add: le_log_iff)
  moreover have "log 2 \<bar>x\<bar> < of_int e + 1" using assms(2) pos by (simp add: log_less_iff)
  ultimately show ?thesis unfolding exponent_def by linarith
qed

lemma rhe_eqI:
  assumes "of_int k - 1 / 2 < x" "x < of_int k + 1 / 2"
  shows "round_half_even x = k"
  using assms rhe_lower[of x] rhe_upper[of x] by linarith

text \<open>
  The rounding of \<open>x\<close> from its binary exponent \<open>e\<close> and the integer \<open>k\<close> nearest to \<open>x\<close> in units
  of the last place.
\<close>

lemma rnd64_value:
  assumes "2 powr of_int e \<le> \<bar>x\<bar>" "\<bar>x\<bar> < 2 powr (of_int e + 1)"
    and "of_int k - 1 / 2 < x / 2 powr (of_int e - 52)"
    and "x / 2 powr (of_int e - 52) < of_int k + 1 / 2"
  shows "rnd64 x = of_int k * 2 powr (of_int e - 52)"
proof -
  have "x \<noteq> 0" using assms(1) by (smt (verit) powr_gt_zero)
  then show ?thesis
    unfolding rnd64_def Let_def exponent_eqI[OF assms(1,2)] rhe_eqI[OF assms(3,4)] by simp
qed

lemma rhe_tie_even:
  assumes "even k"
  shows "round_half_even (of_int k - 1 / 2) = k"
proof -
  have f: "\<lfloor>of_int k - (1 / 2 :: real)\<rfloor> = k - 1" by linarith
  show ?thesis using assms unfolding round_half_even_def Let_def f by simp
qed

lemma rnd64_tie:
  assumes "2 powr of_int e \<le> \<bar>x\<bar>" "\<bar>x\<bar> < 2 powr (of_int e + 1)"
    and "x / 2 powr (of_int e - 52) = of_int k - 1 / 2" "even k"
  shows "rnd64 x = of_int k * 2 powr (of_int e - 52)"
proof -
  have "x \<noteq> 0" using assms(1) by (smt (verit) powr_gt_zero)
  then show ?thesis
    unfolding rnd64_def Let_def exponent_eqI[OF assms(1,2)] assms(3) rhe_tie_even[OF assms(4)]
    by simp
qed

lemmas rnd64_eval = powr_neg_numeral powr_neg_one

lemma rnd64_0 [simp]: "rnd64 0 = 0"
  by (simp add: rnd64_def)

lemma rnd64_half [simp]: "rnd64 (1 / 2) = 1 / 2"
  using rnd64_value[of "-1" "1 / 2" "2 ^ 52"] by (simp add: rnd64_eval)

lemma rnd64_50 [simp]: "rnd64 50 = 50"
  using rnd64_value[of 5 50 "50 * 2 ^ 47"] by (simp add: rnd64_eval)

lemma rnd64_100 [simp]: "rnd64 100 = 100"
  using rnd64_value[of 6 100 "100 * 2 ^ 46"] by (simp add: rnd64_eval)

section \<open>Achieved percentages\<close>

text \<open>
  \<open>demo_passes\<close> is a run of the steps 1 to 10 that leaves the text as it is and reports
  no service result. \<open>draw\<close> is the float nearest to -2.95, a value of
  \<^verbatim>\<open>random.uniform(-3, 3)\<close>.
\<close>

definition demo_passes :: "unit pipeline" where
  "demo_passes text mode intensity = Inr (text, ())"

definition draw :: real where
  "draw = - 6642809450371482 / 2 ^ 51"

lemma draw_nearest: "rnd64 (- 295 / 100) = draw"
  using rnd64_value[of 1 "- 295 / 100" "- 6642809450371482"] by (simp add: draw_def rnd64_eval)

lemma fast_ai: "fadd 75 draw = 5070068018000691 / 2 ^ 46"
  using rnd64_value[of 6 "75 + draw" 5070068018000691]
  by (simp add: fadd_def draw_def rnd64_eval)

lemma fast_human: "fsub 25 draw = 7867225599062835 / 2 ^ 48"
  using rnd64_value[of 4 "25 - draw" 7867225599062835]
  by (simp add: fsub_def draw_def rnd64_eval)

lemma fast_total: "fadd (5070068018000691 / 2 ^ 46) (7867225599062835 / 2 ^ 48) = 100"
  using rnd64_value[of 6 "5070068018000691 / 2 ^ 46 + 7867225599062835 / 2 ^ 48" "100 * 2 ^ 46"]
  by (simp add: fadd_def rnd64_eval)

lemma fast_ai_share: "fdiv (5070068018000691 / 2 ^ 46) 100 = 6489687063040884 / 2 ^ 53"
  using rnd64_value[of "-1" "5070068018000691 / 2 ^ 46 / 100" 6489687063040884]
  by (simp add: fdiv_def rnd64_eval)

lemma fast_ai_percent: "fmul (6489687063040884 / 2 ^ 53) 100 = 5070068018000691 / 2 ^ 46"
  using rnd64_value[of 6 "6489687063040884 / 2 ^ 53 * 100" 5070068018000691]
  by (simp add: fmul_def rnd64_eval)

lemma fast_human_share: "fdiv (7867225599062835 / 2 ^ 48) 100 = 5035024383400214 / 2 ^ 54"
  using rnd64_value[of "-2" "7867225599062835 / 2 ^ 48 / 100" 5035024383400214]
  by (simp add: fdiv_def rnd64_eval)

lemma fast_human_percent: "fmul (5035024383400214 / 2 ^ 54) 100 = 7867225599062834 / 2 ^ 48"
  using rnd64_value[of 4 "5035024383400214 / 2 ^ 54 * 100" 7867225599062834]
  by (simp add: fmul_def rnd64_eval)

lemma fast_achieved:
  "achieved_percentages \<lparr>ai_generated = 75, human_written = 25\<rparr> draw
     = (5070068018000691 / 2 ^ 46, 7867225599062834 / 2 ^ 48)"
proof -
  define a h qa qh h' :: real
    where "a = 5070068018000691 / 2 ^ 46" and "h = 7867225599062835 / 2 ^ 48"
      and "qa = 6489687063040884 / 2 ^ 53" and "qh = 5035024383400214 / 2 ^ 54"
      and "h' = 7867225599062834 / 2 ^ 48"
  have 1: "fadd 75 draw = a" "fsub 25 draw = h" "fadd a h = 100"
    "fdiv a 100 = qa" "fmul qa 100 = a" "fdiv h 100 = qh" "fmul qh 100 = h'"
    unfolding a_def h_def qa_def qh_def h'_def
    by (rule fast_ai fast_human fast_total fast_ai_share fast_ai_percent fast_human_share
        fast_human_percent)+
  have 2: "max 0 (min 100 a) = a" "max 0 (min 100 h) = h"
    unfolding a_def h_def by simp_all
  have "achieved_percentages \<lparr>ai_generated = 75, human_written = 25\<rparr> draw = (a, h')"
    unfolding achieved_percentages_def Let_def by (simp add: 1 2)
  then show ?thesis unfolding a_def h'_def .
qed

lemma fast_ai_rounded: "float_round (5070068018000691 / 2 ^ 46) 1 = 72"
proof -
  have "round_half_even (5070068018000691 / 2 ^ 46 * 10) = 720"
    by (rule rhe_eqI) simp_all
  then have "py_round (5070068018000691 / 2 ^ 46) 1 = 72" by (simp add: py_round_def)
  moreover have "rnd64 72 = 72"
    using rnd64_value[of 6 72 "72 * 2 ^ 46"] by (simp add: rnd64_eval)
  ultimately show ?thesis unfolding float_round_def by (simp only:)
qed

lemma fast_human_rounded: "float_round (7867225599062834 / 2 ^ 48) 1 = rnd64 (279 / 10)"
proof -
  have "round_half_even (7867225599062834 / 2 ^ 48 * 10) = 279"
    by (rule rhe_eqI) simp_all
  then have "py_round (7867225599062834 / 2 ^ 48) 1 = 279 / 10" unfolding py_round_def by simp
  then show ?thesis unfolding float_round_def by (simp only:)
qed

lemma float_27_9: "rnd64 (279 / 10) = 7853151850227302 / 2 ^ 48"
  using rnd64_value[of 4 "279 / 10" 7853151850227302] by (simp add: rnd64_eval)

lemma float_99_9: "rnd64 (999 / 10) = 7029837543348634 / 2 ^ 46"
  using rnd64_value[of 6 "999 / 10" 7029837543348634] by (simp add: rnd64_eval)

lemma float_sum_99_9: "fadd 72 (rnd64 (279 / 10)) = rnd64 (999 / 10)"
  unfolding float_27_9 float_99_9
  using rnd64_tie[of 6 "72 + 7853151850227302 / 2 ^ 48" 7029837543348634]
  by (simp add: fadd_def rnd64_eval)

text \<open>
  Claim C2 (the achieved AI and human percentages that a humanize invocation and a batch item
  return sum to exactly 100 up to floating rounding) at the mode \<^verbatim>\<open>fast\<close> and the draw
  \<open>draw\<close>, the float nearest to -2.95: the route and the batch item return 72.0 and the float
  27.9, whose sum, exact or as floats, is 99.9 and not 100. The pair is renormalised to sum to
  100 before each side is rounded to one decimal on its own.
\<close>

theorem C2_achieved_sum_off:
  "humanize_text_route ascii_ucd demo_passes draw 0
     (Some \<lparr>req_text = Some (str ''Hello world.''), req_mode = Some (str ''fast'')\<rparr>)
   = Inr \<lparr>humanizedText = str ''Hello world.'', resp_mode = str ''fast'',
           targetAIScore = 75, targetHumanScore = 25,
           achievedAIScore = 72, achievedHumanScore = rnd64 (279 / 10), processingTime = 0,
           originalLength = 12, humanizedLength = 12, serviceResults = ()\<rparr>
   \<and> outcome (process_single_text demo_passes draw 0 (str ''Hello world.'') (str ''fast'') 0)
     = Success \<lparr>humanized_text = str ''Hello world.'', item_mode = str ''fast'',
           target_ai_score = 75, target_human_score = 25,
           achieved_ai_score = 72, achieved_human_score = rnd64 (279 / 10),
           processing_time_ms = 0, original_length = 12, humanized_length = 12,
           service_results = ()\<rparr>
   \<and> fadd 72 (rnd64 (279 / 10)) = rnd64 (999 / 10)
   \<and> \<bar>72 + rnd64 (279 / 10) - 999 / 10\<bar> < 1 / 10 ^ 14"
proof (intro conjI)
  have m: "lower ascii_ucd (str ''fast'') = str ''fast''"
    by (simp add: ascii_ucd_def ascii_lower_def str_def)
  have t: "get_target_percentages (str ''fast'') = \<lparr>ai_generated = 75, human_written = 25\<rparr>"
    by (simp add: get_target_percentages_def targets_def str_def)
  have c: "cleanup_formatting (str ''Hello world.'') = str ''Hello world.''"
    by (simp add: cleanup_formatting_def sub_whitespace.simps sub_periods.simps
          sub_commas.simps sub_emdash.simps strip_def str_def is_space_def)
  have s: "strip (str ''Hello world.'') \<noteq> []"
    by (simp add: strip_def str_def is_space_def)
  have l: "length (str ''Hello world.'') = 12" by (simp add: str_def)
  have p: "float_round (fmul 0 1000) 1 = 0" by (simp add: float_round_def fmul_def)
  note a = fast_achieved fast_ai_rounded fast_human_rounded
  show "humanize_text_route ascii_ucd demo_passes draw 0
     (Some \<lparr>req_text = Some (str ''Hello world.''), req_mode = Some (str ''fast'')\<rparr>)
   = Inr \<lparr>humanizedText = str ''Hello world.'', resp_mode = str ''fast'',
           targetAIScore = 75, targetHumanScore = 25,
           achievedAIScore = 72, achievedHumanScore = rnd64 (279 / 10), processingTime = 0,
           originalLength = 12, humanizedLength = 12, serviceResults = ()\<rparr>"
    unfolding humanize_text_route_def humanize_text_def demo_passes_def Let_def
    by (simp only: option.case sum.case prod.case humanize_request.simps m t c s l p a
          if_False target_percentages.simps)
  show "outcome (process_single_text demo_passes draw 0 (str ''Hello world.'') (str ''fast'') 0)
     = Success \<lparr>humanized_text = str ''Hello world.'', item_mode = str ''fast'',
           target_ai_score = 75, target_human_score = 25,
           achieved_ai_score = 72, achieved_human_score = rnd64 (279 / 10),
           processing_time_ms = 0, original_length = 12, humanized_length = 12,
           service_results = ()\<rparr>"
    unfolding process_single_text_def humanize_text_def demo_passes_def Let_def
    by (simp only: sum.case prod.case t c l p a item_result.simps target_percentages.simps)
  show "fadd 72 (rnd64 (279 / 10)) = rnd64 (999 / 10)" by (rule float_sum_99_9)
  show "\<bar>72 + rnd64 (279 / 10) - 999 / 10\<bar> < 1 / 10 ^ 14"
    unfolding float_27_9 by simp
qed

section \<open>Cleaning up old batches\<close>

definition job1 :: batch_info where
  "job1 = \<lparr>total = 1, completed = 1, failed = 0, start_time = 1000, status = Completed,
           end_time = Some 1000, error = None\<rparr>"

lemma cleanup_lookup:
  "cleanup_old_batches now h tbl bid =
     (case tbl bid of None \<Rightarrow> None
      | Some info \<Rightarrow> if now - start_time info > h * 3600 then None else Some info)"
  by (simp add: cleanup_old_batches_def)

lemma cleanup_none_removed:
  assumes "\<And>bid info. tbl bid = Some info \<Longrightarrow> now - start_time info \<le> h * 3600"
  shows "cleanup_old_batches now h tbl = tbl"
proof
  fix bid
  show "cleanup_old_batches now h tbl bid = tbl bid"
    using assms[of bid] by (cases "tbl bid") (auto simp: cleanup_lookup)
qed

lemma cleanup_large_bound:
  assumes fin: "finite (dom tbl)"
  shows "\<exists>H. \<forall>h\<ge>H. cleanup_old_batches now h tbl = tbl"
proof -
  let ?A = "(\<lambda>info. (now - start_time info) / 3600) ` ran tbl"
  have "finite (ran tbl)" using fin by (simp add: finite_ran)
  then have finA: "finite ?A" by simp
  then obtain H where H: "\<forall>a\<in>?A. a \<le> H"
    by (meson bdd_above.E bdd_above_finite)
  have "\<forall>h\<ge>H. cleanup_old_batches now h tbl = tbl"
  proof (intro allI impI)
    fix h assume hH: "H \<le> h"
    show "cleanup_old_batches now h tbl = tbl"
    proof (rule cleanup_none_removed)
      fix bid info assume "tbl bid = Some info"
      then have "info \<in> ran tbl" by (auto simp: ran_def)
      then have "(now - start_time info) / 3600 \<le> H" using H by blast
      then have "(now - start_time info) / 3600 \<le> h" using hH by linarith
      then show "now - start_time info \<le> h * 3600" by (simp add: field_simps)
    qed
  qed
  then show ?thesis by blast
qed

text \<open>
  Claim C7 as stated fails: a job record whose start time equals the clock reading of the
  clean-up has age 0, which does not exceed the threshold 0, and is kept.
\<close>

theorem C7_counterexample:
  "cleanup_old_batches 1000 0 [str ''b1'' \<mapsto> job1] (str ''b1'') = Some job1"
  by (simp add: cleanup_old_batches_def job1_def)

text \<open>
  Claim C7, amended. With \<^verbatim>\<open>max_age_hours = 0\<close> the clean-up removes exactly the records that
  started strictly before the clock reading (age measured from the start time) and keeps
  the others; it never adds a record; and for every finite job table there is a bound from
  which on every \<^verbatim>\<open>max_age_hours\<close> removes nothing.
\<close>

theorem C7_cleanup:
  "(\<forall>bid info. tbl bid = Some info \<longrightarrow>
      cleanup_old_batches now 0 tbl bid = (if start_time info < now then None else Some info))
   \<and> (\<forall>bid. tbl bid = None \<longrightarrow> cleanup_old_batches now h tbl bid = None)
   \<and> (finite (dom tbl) \<longrightarrow> (\<exists>H. \<forall>h\<ge>H. cleanup_old_batches now h tbl = tbl))"
  using cleanup_large_bound[of tbl now] by (auto simp: cleanup_lookup)

theorem C7_cleanup_witness:
  "cleanup_old_batches 1001 0 [str ''b1'' \<mapsto> job1] (str ''b1'') = None
   \<and> cleanup_old_batches 1001 0 [str ''b1'' \<mapsto> job1] (str ''b2'') = None
   \<and> (\<exists>H. \<forall>h\<ge>H. cleanup_old_batches 1001 h [str ''b1'' \<mapsto> job1] = [str ''b1'' \<mapsto> job1])"
  using C7_cleanup[of "[str ''b1'' \<mapsto> job1]" 1001 0]
  by (simp add: job1_def str_def)

section \<open>Batch processing\<close>

text \<open>
  Two notions for the proofs: \<open>collected texts fr i\<close> is the entry that the collecting loop
  appends for the future of index \<open>i\<close>, and \<open>tally rs info\<close> is the job record after the
  entries \<open>rs\<close> have been counted.
\<close>

definition collected :: "utext list \<Rightarrow> (nat \<Rightarrow> string + 'sr item_result) \<Rightarrow> nat \<Rightarrow> 'sr item_result" where
  "collected texts fr i =
     (case fr i of
        Inr result0 \<Rightarrow> result0\<lparr>index := i\<rparr>
      | Inl e \<Rightarrow> \<lparr>index = i, original_text = (if i < length texts then texts ! i else []),
                  outcome = Failure e\<rparr>)"

definition tally :: "'sr item_result list \<Rightarrow> batch_info \<Rightarrow> batch_info" where
  "tally rs info =
     info\<lparr>completed := completed info + length (filter success rs),
          failed := failed info + length (filter (\<lambda>r. \<not> success r) rs)\<rparr>"

lemma index_collected [simp]: "index (collected texts fr i) = i"
  by (simp add: collected_def split: sum.splits)

lemma tally_Nil [simp]: "tally [] info = info"
  by (simp add: tally_def)

lemma collect_result_step:
  assumes "tbl bid = Some info"
  shows "collect_result texts bid fr i (rs, tbl) =
           (rs @ [collected texts fr i], tbl(bid \<mapsto> tally [collected texts fr i] info))"
  using assms
  by (auto simp: collect_result_def collected_def tally_def success_def Let_def
           split: sum.splits item_outcome.splits)

lemma tally_tally: "tally [r] (tally rs info) = tally (rs @ [r]) info"
  by (simp add: tally_def)

lemma fold_collect_result:
  assumes "tbl bid = Some info"
  shows "fold (collect_result texts bid fr) order (rs, tbl) =
           (rs @ map (collected texts fr) order,
            tbl(bid \<mapsto> tally (map (collected texts fr) order) info))"
  using assms
proof (induction order arbitrary: rs tbl info)
  case Nil
  then show ?case by (simp add: fun_upd_idem)
next
  case (Cons i order)
  have step: "collect_result texts bid fr i (rs, tbl) =
           (rs @ [collected texts fr i], tbl(bid \<mapsto> tally [collected texts fr i] info))"
    using Cons.prems by (rule collect_result_step)
  have "fold (collect_result texts bid fr) (i # order) (rs, tbl) =
        fold (collect_result texts bid fr) order
          (rs @ [collected texts fr i], tbl(bid \<mapsto> tally [collected texts fr i] info))"
    by (simp add: step)
  also have "\<dots> = ((rs @ [collected texts fr i]) @ map (collected texts fr) order,
       (tbl(bid \<mapsto> tally [collected texts fr i] info))
         (bid \<mapsto> tally (map (collected texts fr) order) (tally [collected texts fr i] info)))"
    by (rule Cons.IH) simp
  also have "\<dots> = (rs @ map (collected texts fr) (i # order),
            tbl(bid \<mapsto> tally (map (collected texts fr) (i # order)) info))"
    by (simp add: tally_def)
  finally show ?case .
qed

lemma sorted_results_indices:
  assumes "mset (map index rs) = mset [0..<n]"
  shows "map index (sort_key index rs) = [0..<n]"
proof -
  have "mset (map index (sort_key index rs)) = mset [0..<n]"
    using assms by simp
  moreover have "sorted (map index (sort_key index rs))" by (rule sorted_sort_key)
  ultimately have "sort [0..<n] = map index (sort_key index rs)"
    by (rule properties_for_sort)
  then show ?thesis by simp
qed

lemma filter_sort_key_length:
  "length (filter P (sort_key f xs)) = length (filter P xs)"
proof -
  have "mset (filter P (sort_key f xs)) = mset (filter P xs)" by simp
  then show ?thesis by (metis size_mset)
qed

text \<open>What an accepted batch returns, and the job record it leaves.\<close>

lemma process_batch_accepted:
  fixes env :: "'sr batch_env" and bid0 :: "utext option" and mode :: utext
  assumes "texts \<noteq> []" "length texts \<le> 50"
  defines "bid \<equiv> (case bid0 of None \<Rightarrow> generated_batch_id (id_clock env)
                     | Some b \<Rightarrow> if b = [] then generated_batch_id (id_clock env) else b)"
  defines "fr \<equiv> (\<lambda>i. Inr (process_single_text (item_passes env i) (item_variation env i)
                            (item_elapsed env i) (texts ! i) mode i) :: string + 'sr item_result)"
  defines "rs \<equiv> map (collected texts fr) (completion_order env)"
  shows "process_batch env texts mode bid0 tbl =
           (Inr \<lparr>resp_batch_id = bid, total_texts = length texts,
                  successful = length (filter success rs),
                  failed_count = length (filter (\<lambda>r. \<not> success r) rs),
                  results = sort_key index rs,
                  processing_time = end_clock env - start_clock env\<rparr>,
            tbl(bid \<mapsto> \<lparr>total = length texts, completed = length (filter success rs),
                          failed = length (filter (\<lambda>r. \<not> success r) rs),
                          start_time = start_clock env, status = Completed,
                          end_time = Some (end_clock env), error = None\<rparr>))"
proof -
  let ?info0 = "\<lparr>total = length texts, completed = 0, failed = 0, start_time = start_clock env,
               status = Processing, end_time = None, error = None\<rparr>"
  have par: "process_texts_parallel env texts mode bid (tbl(bid \<mapsto> ?info0)) =
      (sort_key index rs, (tbl(bid \<mapsto> ?info0))(bid \<mapsto> tally rs ?info0))"
    unfolding process_texts_parallel_def Let_def fr_def[symmetric]
    by (simp add: fold_collect_result[where info = ?info0] rs_def)
  show ?thesis
    using assms(1,2)
    unfolding process_batch_def bid_def[symmetric] Let_def par
    by (simp add: tally_def filter_sort_key_length)
qed

lemma collected_single [simp]:
  "collected texts (\<lambda>i. Inr (process_single_text (P i) (V i) (E i) (texts ! i) mode i)) i
     = process_single_text (P i) (V i) (E i) (texts ! i) mode i"
  by (simp add: collected_def process_single_text_def Let_def split: sum.splits prod.splits)

lemma original_text_single [simp]:
  "original_text (process_single_text p v e text mode i) = text"
  by (simp add: process_single_text_def Let_def split: sum.splits prod.splits)

lemma index_single [simp]: "index (process_single_text p v e text mode i) = i"
  by (simp add: process_single_text_def Let_def split: sum.splits prod.splits)

lemma sorted_results_nth:
  assumes "mset (map index rs) = mset [0..<n]" "i < n"
    and "\<forall>r\<in>set rs. original_text r = texts ! index r"
  shows "original_text (sort_key index rs ! i) = texts ! i"
proof -
  have m: "map index (sort_key index rs) = [0..<n]" using assms(1) by (rule sorted_results_indices)
  have "length (map index (sort_key index rs)) = length [0..<n]" by (simp only: m)
  then have len: "length (sort_key index rs) = n" by (simp del: length_sort)
  have "i < length (sort_key index rs)" using len assms(2) by (simp only:)
  then have "sort_key index rs ! i \<in> set (sort_key index rs)" by (rule nth_mem)
  then have "sort_key index rs ! i \<in> set rs" by simp
  then have "original_text (sort_key index rs ! i) = texts ! index (sort_key index rs ! i)"
    using assms(3) by blast
  moreover have "index (sort_key index rs ! i) = [0..<n] ! i"
    using m len assms(2) by (metis nth_map)
  ultimately show ?thesis using assms(2) by simp
qed

lemma py_round_numeral [simp]: "py_round (numeral k) n = numeral k"
  using py_round_of_int[of "numeral k" n] by simp

definition env_demo :: "unit batch_env" where
  "env_demo = \<lparr>id_clock = 1, start_clock = 1, end_clock = 2, completion_order = [1, 0],
     item_passes = (\<lambda>i text mode intensity. if i = 1 then Inl ''boom'' else Inr (text, ())),
     item_variation = (\<lambda>i. 0), item_elapsed = (\<lambda>i. 0)\<rparr>"

definition texts_demo :: "utext list" where
  "texts_demo = [str ''One.'', str ''Two.'']"

lemma demo_order: "mset (completion_order env_demo) = mset [0..<length texts_demo]"
  by (simp add: env_demo_def texts_demo_def)

text \<open>
  Claim C6. \<^verbatim>\<open>process_batch\<close> rejects an empty list and a list of more than 50 texts with
  its validation error and leaves the job table as it was; for 1 to 50 texts, whatever
  the order in which the workers complete (any arrangement of the indices 0..n-1), it
  returns n results whose indices are 0, 1, .., n-1 in this order, the i-th being the
  result for the i-th input text.
\<close>

theorem C6_process_batch:
  fixes env :: "'sr batch_env"
  shows
  "(texts = [] \<longrightarrow>
      process_batch env texts mode bid0 tbl = (Inl ''No texts provided for batch processing'', tbl))
   \<and> (length texts > 50 \<longrightarrow>
      process_batch env texts mode bid0 tbl
        = (Inl ''Batch size too large. Maximum 50 texts allowed.'', tbl))
   \<and> (texts \<noteq> [] \<and> length texts \<le> 50
        \<and> mset (completion_order env) = mset [0..<length texts] \<longrightarrow>
      (\<exists>resp tbl'. process_batch env texts mode bid0 tbl = (Inr resp, tbl')
         \<and> length (results resp) = length texts
         \<and> map index (results resp) = [0..<length texts]
         \<and> (\<forall>i<length texts. original_text (results resp ! i) = texts ! i)))"
proof (intro conjI impI)
  assume "texts = []"
  then show "process_batch env texts mode bid0 tbl
               = (Inl ''No texts provided for batch processing'', tbl)"
    by (simp add: process_batch_def)
next
  assume "length texts > 50"
  then show "process_batch env texts mode bid0 tbl
               = (Inl ''Batch size too large. Maximum 50 texts allowed.'', tbl)"
    by (auto simp: process_batch_def)
next
  assume a: "texts \<noteq> [] \<and> length texts \<le> 50
        \<and> mset (completion_order env) = mset [0..<length texts]"
  let ?fr = "\<lambda>i. Inr (process_single_text (item_passes env i) (item_variation env i)
                            (item_elapsed env i) (texts ! i) mode i) :: string + 'sr item_result"
  let ?rs = "map (collected texts ?fr) (completion_order env)"
  have idx: "map index ?rs = completion_order env" by (simp add: comp_def)
  then have ms: "mset (map index ?rs) = mset [0..<length texts]" using a by simp
  have sorted: "map index (sort_key index ?rs) = [0..<length texts]"
    using ms by (rule sorted_results_indices)
  have "length (map index (sort_key index ?rs)) = length [0..<length texts]"
    by (simp only: sorted)
  then have len: "length (sort_key index ?rs) = length texts" by (simp del: length_sort)
  have orig: "\<forall>r\<in>set ?rs. original_text r = texts ! index r"
    by simp
  have nth: "\<forall>i<length texts. original_text (sort_key index ?rs ! i) = texts ! i"
    using sorted_results_nth[OF ms _ orig] by blast
  show "\<exists>resp tbl'. process_batch env texts mode bid0 tbl = (Inr resp, tbl')
         \<and> length (results resp) = length texts
         \<and> map index (results resp) = [0..<length texts]
         \<and> (\<forall>i<length texts. original_text (results resp ! i) = texts ! i)"
  proof -
    have ne: "texts \<noteq> []" and le: "length texts \<le> 50" using a by simp_all
    note pb = process_batch_accepted[OF ne le, where env = env and mode = mode
                and ?bid0.0 = bid0 and tbl = tbl]
    have "\<exists>resp tbl'. process_batch env texts mode bid0 tbl = (Inr resp, tbl')
            \<and> results resp = sort_key index ?rs"
      by (subst pb) simp
    then obtain resp tbl' where "process_batch env texts mode bid0 tbl = (Inr resp, tbl')"
      and "results resp = sort_key index ?rs" by blast
    then show ?thesis using sorted len nth by (intro exI[of _ resp] exI[of _ tbl']) simp
  qed
qed

theorem C6_process_batch_witness:
  "process_batch env_demo [] (str ''fast'') None Map.empty
     = (Inl ''No texts provided for batch processing'', Map.empty)
   \<and> process_batch env_demo (replicate 51 (str ''Hi.'')) (str ''fast'') None Map.empty
     = (Inl ''Batch size too large. Maximum 50 texts allowed.'', Map.empty)
   \<and> (\<exists>resp tbl'. process_batch env_demo texts_demo (str ''fast'') None Map.empty
          = (Inr resp, tbl')
         \<and> length (results resp) = 2
         \<and> map index (results resp) = [0, 1]
         \<and> original_text (results resp ! 0) = str ''One.''
         \<and> original_text (results resp ! 1) = str ''Two.'')"
proof -
  have h2: "50 < length (replicate 51 (str ''Hi.''))" by simp
  have h3: "texts_demo \<noteq> [] \<and> length texts_demo \<le> 50
      \<and> mset (completion_order env_demo) = mset [0..<length texts_demo]"
    using demo_order by (simp add: texts_demo_def)
  have c1: "process_batch env_demo [] (str ''fast'') None Map.empty
     = (Inl ''No texts provided for batch processing'', Map.empty)"
    using C6_process_batch[of "[]" env_demo "str ''fast''" None Map.empty] by blast
  have c2: "process_batch env_demo (replicate 51 (str ''Hi.'')) (str ''fast'') None Map.empty
     = (Inl ''Batch size too large. Maximum 50 texts allowed.'', Map.empty)"
    using C6_process_batch[of "replicate 51 (str ''Hi.'')" env_demo "str ''fast''" None Map.empty]
      h2 by blast
  obtain resp tbl' where
    r: "process_batch env_demo texts_demo (str ''fast'') None Map.empty = (Inr resp, tbl')"
    and l: "length (results resp) = length texts_demo"
    and m: "map index (results resp) = [0..<length texts_demo]"
    and o: "\<forall>i<length texts_demo. original_text (results resp ! i) = texts_demo ! i"
    using C6_process_batch[of texts_demo env_demo "str ''fast''" None Map.empty] h3 by blast
  have l2: "length texts_demo = 2" by (simp add: texts_demo_def)
  have "original_text (results resp ! 0) = texts_demo ! 0"
    and "original_text (results resp ! 1) = texts_demo ! 1" using o l2 by simp_all
  then have o0: "original_text (results resp ! 0) = str ''One.''"
    and o1: "original_text (results resp ! 1) = str ''Two.''" by (simp_all add: texts_demo_def)
  have m2: "map index (results resp) = [0, 1]" using m l2 by (simp add: upt_rec)
  show ?thesis using c1 c2 r l l2 m2 o0 o1 by (intro conjI exI[of _ resp] exI[of _ tbl']) simp_all
qed

lemma progress_below_100:
  assumes "c < n" "n \<le> 50"
  shows "py_round (real c / real n * 100) 2 < 100"
proof -
  define r where "r = real c / real n"
  have n0: "0 < n" using assms by simp
  have "real c \<le> real n - 1" using assms by (simp add: of_nat_diff)
  then have "real c * 50 \<le> (real n - 1) * 50" by simp
  also have "\<dots> \<le> 49 * real n" using assms(2) by simp
  finally have "r \<le> 49 / 50" unfolding r_def using n0 by (simp add: field_simps)
  then have "r * 100 \<le> of_int 98" by simp
  then have "py_round (r * 100) 2 \<le> py_round (of_int 98) 2" by (rule py_round_mono)
  also have "py_round (of_int 98) 2 = of_int 98" by (rule py_round_of_int)
  finally show ?thesis unfolding r_def by simp
qed

lemma process_batch_job_record:
  fixes env :: "'sr batch_env"
  assumes ne: "texts \<noteq> []" and le: "length texts \<le> 50"
    and pb: "process_batch env texts mode bid0 tbl = (Inr resp, tbl')"
  shows "tbl' (resp_batch_id resp) =
           Some \<lparr>total = length texts, completed = length (filter success (results resp)),
                 failed = length (filter (\<lambda>r. \<not> success r) (results resp)),
                 start_time = start_clock env, status = Completed,
                 end_time = Some (end_clock env), error = None\<rparr>"
    and "failed_count resp = length (filter (\<lambda>r. \<not> success r) (results resp))"
    and "length (results resp) = length (completion_order env)"
proof -
  note acc = process_batch_accepted[OF ne le, where env = env and mode = mode
                and ?bid0.0 = bid0 and tbl = tbl]
  have eq: "(Inr resp, tbl') = process_batch env texts mode bid0 tbl" using pb by simp
  show "tbl' (resp_batch_id resp) =
           Some \<lparr>total = length texts, completed = length (filter success (results resp)),
                 failed = length (filter (\<lambda>r. \<not> success r) (results resp)),
                 start_time = start_clock env, status = Completed,
                 end_time = Some (end_clock env), error = None\<rparr>"
    using eq unfolding acc by (simp add: filter_sort_key_length)
  show "failed_count resp = length (filter (\<lambda>r. \<not> success r) (results resp))"
    using eq unfolding acc by (simp add: filter_sort_key_length)
  show "length (results resp) = length (completion_order env)"
    using eq unfolding acc by simp
qed

text \<open>
  Claim C10. After an accepted batch the job record has status completed, its completed
  counter is the number of successful items and its failed counter the number of failed
  ones; \<^verbatim>\<open>get_batch_status\<close> reports completed/total*100 (rounded to two decimals), which is
  strictly below 100 as soon as one item failed.
\<close>

theorem C10_progress_counts_successes:
  fixes env :: "'sr batch_env"
  shows
  "texts \<noteq> [] \<and> length texts \<le> 50 \<and> mset (completion_order env) = mset [0..<length texts]
     \<and> process_batch env texts mode bid0 tbl = (Inr resp, tbl') \<longrightarrow>
   (\<exists>info st. tbl' (resp_batch_id resp) = Some info
      \<and> status info = Completed
      \<and> total info = length texts
      \<and> completed info = length (filter success (results resp))
      \<and> failed info = length (filter (\<lambda>r. \<not> success r) (results resp))
      \<and> get_batch_status clock (resp_batch_id resp) tbl' = Inr st
      \<and> batch st = info
      \<and> progress_percentage st = py_round (real (completed info) / real (total info) * 100) 2
      \<and> (0 < failed_count resp \<longrightarrow> progress_percentage st < 100))"
proof (intro impI)
  assume a: "texts \<noteq> [] \<and> length texts \<le> 50
     \<and> mset (completion_order env) = mset [0..<length texts]
     \<and> process_batch env texts mode bid0 tbl = (Inr resp, tbl')"
  then have ne: "texts \<noteq> []" and le: "length texts \<le> 50"
    and pb: "process_batch env texts mode bid0 tbl = (Inr resp, tbl')" by simp_all
  let ?c = "length (filter success (results resp))"
  let ?f = "length (filter (\<lambda>r. \<not> success r) (results resp))"
  let ?info = "\<lparr>total = length texts, completed = ?c, failed = ?f,
                 start_time = start_clock env, status = Completed,
                 end_time = Some (end_clock env), error = None\<rparr>"
  let ?p = "py_round (real ?c / real (length texts) * 100) 2"
  let ?st = "\<lparr>batch = ?info, progress_percentage = ?p, estimated_remaining_seconds = None\<rparr>"
  note jr = process_batch_job_record[OF ne le pb]
  have "size (mset (completion_order env)) = size (mset [0..<length texts])" using a by simp
  then have lo: "length (completion_order env) = length texts" by simp
  have "?c + ?f = length (results resp)" by (rule sum_length_filter_compl)
  then have cf: "?c + ?f = length texts" using lo jr(3) by simp
  have lt: "0 < failed_count resp \<longrightarrow> ?p < 100"
  proof
    assume "0 < failed_count resp"
    then have "?c < length texts" using cf jr(2) by linarith
    then show "?p < 100" using le by (rule progress_below_100)
  qed
  have tpos: "0 < length texts" using ne by simp
  have gs: "get_batch_status clock (resp_batch_id resp) tbl' = Inr ?st"
    using tpos by (simp add: get_batch_status_def jr(1))
  show "\<exists>info st. tbl' (resp_batch_id resp) = Some info
      \<and> status info = Completed
      \<and> total info = length texts
      \<and> completed info = length (filter success (results resp))
      \<and> failed info = length (filter (\<lambda>r. \<not> success r) (results resp))
      \<and> get_batch_status clock (resp_batch_id resp) tbl' = Inr st
      \<and> batch st = info
      \<and> progress_percentage st = py_round (real (completed info) / real (total info) * 100) 2
      \<and> (0 < failed_count resp \<longrightarrow> progress_percentage st < 100)"
    using jr(1) gs lt by (intro exI[of _ ?info] exI[of _ ?st]) simp
qed

theorem C10_progress_counts_successes_witness:
  "\<exists>resp tbl' info st.
     process_batch env_demo texts_demo (str ''fast'') None Map.empty = (Inr resp, tbl')
     \<and> failed_count resp = 1
     \<and> tbl' (resp_batch_id resp) = Some info
     \<and> status info = Completed \<and> total info = 2 \<and> completed info = 1
     \<and> get_batch_status 3 (resp_batch_id resp) tbl' = Inr st
     \<and> progress_percentage st = 50
     \<and> progress_percentage st < 100"
proof -
  have ne: "texts_demo \<noteq> []" and le: "length texts_demo \<le> 50"
    by (simp_all add: texts_demo_def)
  obtain resp tbl' where
    r: "process_batch env_demo texts_demo (str ''fast'') None Map.empty = (Inr resp, tbl')"
    using C6_process_batch[of texts_demo env_demo "str ''fast''" None Map.empty] ne le demo_order
    by blast
  have res: "results resp = sort_key index (map (collected texts_demo
      (\<lambda>i. Inr (process_single_text (item_passes env_demo i) (item_variation env_demo i)
                     (item_elapsed env_demo i) (texts_demo ! i) (str ''fast'') i)))
      (completion_order env_demo))"
    using r unfolding process_batch_accepted[OF ne le] by auto
  have s0: "success (process_single_text (item_passes env_demo 0) v e t m 0)" for v e t m
    by (simp add: success_def process_single_text_def humanize_text_def env_demo_def Let_def
          split: prod.splits)
  have s1: "\<not> success (process_single_text (item_passes env_demo 1) v e t m 1)" for v e t m
    by (simp add: success_def process_single_text_def humanize_text_def env_demo_def Let_def)
  have co: "completion_order env_demo = [1, 0]" by (simp add: env_demo_def)
  have c: "length (filter success (results resp)) = 1"
    unfolding res filter_sort_key_length co using s0 s1 by simp
  have f: "length (filter (\<lambda>r. \<not> success r) (results resp)) = 1"
    unfolding res filter_sort_key_length co using s0 s1 by simp
  note jr = process_batch_job_record[OF ne le r]
  have fc: "failed_count resp = 1" using jr(2) f by simp
  have h: "texts_demo \<noteq> [] \<and> length texts_demo \<le> 50
     \<and> mset (completion_order env_demo) = mset [0..<length texts_demo]
     \<and> process_batch env_demo texts_demo (str ''fast'') None Map.empty = (Inr resp, tbl')"
    using ne le demo_order r by simp
  have ex: "\<exists>info st. tbl' (resp_batch_id resp) = Some info
      \<and> status info = Completed
      \<and> total info = length texts_demo
      \<and> completed info = length (filter success (results resp))
      \<and> failed info = length (filter (\<lambda>r. \<not> success r) (results resp))
      \<and> get_batch_status 3 (resp_batch_id resp) tbl' = Inr st
      \<and> batch st = info
      \<and> progress_percentage st = py_round (real (completed info) / real (total info) * 100) 2
      \<and> (0 < failed_count resp \<longrightarrow> progress_percentage st < 100)"
    by (rule mp[OF C10_progress_counts_successes[of texts_demo env_demo "str ''fast''" None
          Map.empty resp tbl' 3] h])
  obtain info st where
    i1: "tbl' (resp_batch_id resp) = Some info" and i2: "status info = Completed"
    and i3: "total info = length texts_demo"
    and i4: "completed info = length (filter success (results resp))"
    and i5: "get_batch_status 3 (resp_batch_id resp) tbl' = Inr st"
    and i6: "progress_percentage st = py_round (real (completed info) / real (total info) * 100) 2"
    and i7: "0 < failed_count resp \<longrightarrow> progress_percentage st < 100"
    using ex by auto
  have t2: "total info = 2" using i3 by (simp add: texts_demo_def)
  have c1: "completed info = 1" using i4 c by simp
  have p50: "progress_percentage st = 50" unfolding i6 t2 c1 by simp
  have plt: "progress_percentage st < 100" using i7 fc by simp
  show ?thesis
    using r fc i1 i2 t2 c1 i5 p50 plt
    by (intro exI[of _ resp] exI[of _ tbl'] exI[of _ info] exI[of _ st]) simp
qed

section \<open>Mode validation\<close>

text \<open>
  The route \<^verbatim>\<open>/api/batch\<close> rejects a mode outside fast, balanced, aggressive with status 400
  before it calls the service. The route \<^verbatim>\<open>/api/humanize\<close> has no such test: its only
  error responses are the missing or empty text (400) and an exception of the pipeline
  (500); an unknown mode gets the targets 50/50 and the intensity 0.7 of the defaults.
\<close>

lemma unknown_mode_targets:
  "mode \<notin> set valid_modes \<Longrightarrow>
     get_target_percentages mode = \<lparr>ai_generated = 50, human_written = 50\<rparr>
     \<and> calculate_humanization_intensity mode = 0.7"
  by (simp add: valid_modes_def get_target_percentages_def targets_def
        calculate_humanization_intensity_def intensities_def)

lemma batch_route_rejects_invalid_mode:
  assumes "req_texts d = Some texts" "texts \<noteq> []"
    and "lower U (case req_batch_mode d of None \<Rightarrow> str ''balanced'' | Some m \<Rightarrow> m) \<notin> set valid_modes"
  shows "\<exists>msg. process_batch_route U env (Some d) tbl = (Inl (400, msg), tbl)"
  using assms by (simp add: process_batch_route_def Let_def)

lemma humanize_route_never_rejects_mode:
  assumes "humanize_text_route U passes v e (Some \<lparr>req_text = Some text, req_mode = Some m\<rparr>)
             = Inl (code, msg)"
  shows "code = 500 \<or> strip text = []"
  using assms
  by (auto simp: humanize_text_route_def humanize_text_def Let_def
           split: if_splits sum.splits prod.splits)

text \<open>
  Claim C8 (an invalid mode is rejected as a validation error by every operation that
  takes a mode) at the request \<^verbatim>\<open>{"text": "Hello world.", "mode": "turbo"}\<close> of the route
  \<^verbatim>\<open>/api/humanize\<close>: the code answers with a success response carrying the mode
  \<^verbatim>\<open>turbo\<close> and the balanced targets, not with a validation error.
\<close>

theorem C8_invalid_mode_accepted:
  "humanize_text_route ascii_ucd demo_passes 0 0
     (Some \<lparr>req_text = Some (str ''Hello world.''), req_mode = Some (str ''turbo'')\<rparr>)
   = Inr \<lparr>humanizedText = str ''Hello world.'', resp_mode = str ''turbo'',
           targetAIScore = 50, targetHumanScore = 50,
           achievedAIScore = 50, achievedHumanScore = 50, processingTime = 0,
           originalLength = 12, humanizedLength = 12, serviceResults = ()\<rparr>"
proof -
  have m: "lower ascii_ucd (str ''turbo'') = str ''turbo''"
    by (simp add: ascii_ucd_def ascii_lower_def str_def)
  have t: "get_target_percentages (str ''turbo'') = \<lparr>ai_generated = 50, human_written = 50\<rparr>"
    by (simp add: get_target_percentages_def targets_def str_def)
  have c: "cleanup_formatting (str ''Hello world.'') = str ''Hello world.''"
    by (simp add: cleanup_formatting_def sub_whitespace.simps sub_periods.simps
          sub_commas.simps sub_emdash.simps strip_def str_def is_space_def)
  have s: "strip (str ''Hello world.'') \<noteq> []"
    by (simp add: strip_def str_def is_space_def)
  have a: "achieved_percentages \<lparr>ai_generated = 50, human_written = 50\<rparr> 0 = (50, 50)"
    by (simp add: achieved_percentages_def fadd_def fsub_def fdiv_def fmul_def)
  have l: "length (str ''Hello world.'') = 12" by (simp add: str_def)
  show ?thesis
    by (simp add: humanize_text_route_def humanize_text_def demo_passes_def Let_def m t c s a l
          float_round_def fmul_def)
qed

section \<open>Sentence counts\<close>

text \<open>
  Claim C9 (the sentence count of the comparison engine's basic statistics equals the number
  of sentences of the segmenter) at the text \<^verbatim>\<open>Hello world\<close>: the comparison engine reports
  0 sentences, the segmenter yields one sentence.
\<close>

theorem C9_sentence_count_disagrees:
  "ts_sentences (get_text_stats ascii_ucd (str ''Hello world'')) = 0
   \<and> length (split_sentences (str ''Hello world'')) = 1"
  by (simp add: get_text_stats_def split_sentences_def re_split_terminators.simps
        is_terminator_def strip_def is_space_def str_def)

section \<open>Readability\<close>

text \<open>
  Claim C4. For every text with at least one sentence and one word the readability group
  is computed, Flesch Reading Ease lies in [0, 100], the Flesch-Kincaid grade, the Automated
  Readability Index and the Coleman-Liau index are not negative, and each is the stated
  formula over the word, sentence, syllable and word-character counts, clamped and rounded
  to two decimals.
\<close>

theorem C4_readability_ranges:
  "split_sentences text \<noteq> [] \<and> split_words U text \<noteq> [] \<longrightarrow>
   (\<exists>r. calculate_readability U text = Inr r
      \<and> 0 \<le> flesch_reading_ease r \<and> flesch_reading_ease r \<le> 100
      \<and> 0 \<le> flesch_kincaid_grade r
      \<and> 0 \<le> automated_readability_index r
      \<and> 0 \<le> coleman_liau_index r
      \<and> (let W = real (length (split_words U text));
              S = real (length (split_sentences text));
              Y = real (sum_list (map (count_syllables U) (split_words U text)));
              C = real (sum_list (map length (split_words U text)))
          in flesch_reading_ease r
               = py_round (max 0 (min 100 (206.835 - 1.015 * (W / S) - 84.6 * (Y / W)))) 2
           \<and> flesch_kincaid_grade r
               = py_round (max 0 (0.39 * (W / S) + 11.8 * (Y / W) - 15.59)) 2
           \<and> automated_readability_index r
               = py_round (max 0 (4.71 * (C / W) + 0.5 * (W / S) - 21.43)) 2
           \<and> coleman_liau_index r
               = py_round (max 0 (0.0588 * (C / W * 100) - 0.296 * (S / W * 100) - 15.8)) 2))"
  by (auto simp: calculate_readability_def Let_def py_round_nonneg py_round_le_100)

lemma demo_sentences:
  "split_sentences (str ''The cat sat. It was happy.'') = [str ''The cat sat'', str ''It was happy'']"
  by (simp add: split_sentences_def re_split_terminators.simps is_terminator_def strip_def
        is_space_def str_def)

lemma demo_words:
  "split_words ascii_ucd (str ''The cat sat. It was happy.'')
     = map str [''the'', ''cat'', ''sat'', ''it'', ''was'', ''happy'']"
  by (simp add: split_words_def findall_words_def runs.simps is_word_char_def ascii_ucd_def
        ascii_isalnum_def ascii_lower_def str_def)

theorem C4_readability_ranges_witness:
  "\<exists>r. calculate_readability ascii_ucd (str ''The cat sat. It was happy.'') = Inr r
      \<and> 0 \<le> flesch_reading_ease r \<and> flesch_reading_ease r \<le> 100
      \<and> 0 \<le> flesch_kincaid_grade r
      \<and> 0 \<le> automated_readability_index r
      \<and> 0 \<le> coleman_liau_index r"
proof -
  have h: "split_sentences (str ''The cat sat. It was happy.'') \<noteq> []
      \<and> split_words ascii_ucd (str ''The cat sat. It was happy.'') \<noteq> []"
    by (simp add: demo_sentences demo_words)
  show ?thesis
    using mp[OF C4_readability_ranges[of "str ''The cat sat. It was happy.''" ascii_ucd] h]
    by auto
qed

section \<open>Clean-up of formatting\<close>

lemma is_space_32 [simp]: "is_space 32"
  by (simp add: is_space_def)

lemma not_is_space_emdash [simp]: "\<not> is_space 8212"
  by (simp add: is_space_def)

lemma set_dropWhile_subset: "set (dropWhile Q xs) \<subseteq> set xs"
  by (rule subsetI) (erule set_dropWhileD)

lemma successively_dropWhile:
  "successively P xs \<Longrightarrow> successively P (dropWhile Q xs)"
  by (induction xs) (auto simp: successively_Cons)

lemma successively_tl: "successively P (x # xs) \<Longrightarrow> successively P xs"
  by (auto simp: successively_Cons)

lemma successively_replace_tail:
  assumes "successively P (x # xs)" "successively P ys"
    and "xs \<noteq> [] \<Longrightarrow> ys \<noteq> [] \<and> hd ys = hd xs" "xs = [] \<Longrightarrow> ys = []"
  shows "successively P (x # ys)"
  using assms by (cases xs; cases ys) (auto simp: successively_Cons)

subsection \<open>The equations of the four substitutions\<close>

lemma sub_whitespace_space:
  "is_space c \<Longrightarrow> sub_whitespace (c # cs) = 32 # sub_whitespace (dropWhile is_space cs)"
  by (simp add: sub_whitespace.simps(2))

lemma sub_whitespace_other:
  "\<not> is_space c \<Longrightarrow> sub_whitespace (c # cs) = c # sub_whitespace cs"
  by (simp add: sub_whitespace.simps(2))

lemma sub_periods_period:
  "sub_periods (46 # cs) = 46 # sub_periods (dropWhile (\<lambda>d. d = 46) cs)"
  by (simp add: sub_periods.simps(2))

lemma sub_periods_other: "c \<noteq> 46 \<Longrightarrow> sub_periods (c # cs) = c # sub_periods cs"
  by (simp add: sub_periods.simps(2))

lemma sub_commas_match:
  "dropWhile is_space cs = 44 # ds \<Longrightarrow> sub_commas (44 # cs) = 44 # sub_commas ds"
  by (simp add: sub_commas.simps(2))

lemma sub_commas_other:
  assumes "c \<noteq> 44 \<or> dropWhile is_space cs = [] \<or> hd (dropWhile is_space cs) \<noteq> 44"
  shows "sub_commas (c # cs) = c # sub_commas cs"
proof (cases "dropWhile is_space cs")
  case Nil
  then show ?thesis by (simp only: sub_commas.simps(2) list.case if_cancel)
next
  case (Cons d ds)
  have "c \<noteq> 44 \<or> d \<noteq> 44" using assms unfolding Cons by simp
  then show ?thesis unfolding sub_commas.simps(2)[of c cs] Cons by auto
qed

lemma sub_emdash_match:
  "dropWhile is_space (c # cs) = 8212 # ds
     \<Longrightarrow> sub_emdash (c # cs) = [32, 8212, 32] @ sub_emdash (dropWhile is_space ds)"
  by (simp add: sub_emdash.simps(2))

lemma sub_emdash_other:
  assumes "dropWhile is_space (c # cs) = [] \<or> hd (dropWhile is_space (c # cs)) \<noteq> 8212"
  shows "sub_emdash (c # cs) = c # sub_emdash cs"
proof (cases "dropWhile is_space (c # cs)")
  case Nil
  then show ?thesis by (simp only: sub_emdash.simps(2) list.case)
next
  case (Cons d ds)
  have "d \<noteq> 8212" using assms unfolding Cons by simp
  then show ?thesis using Cons by (simp only: sub_emdash.simps(2) list.case if_False)
qed

lemma sub_emdash_other_head: "sub_emdash (c # cs) = c # sub_emdash cs \<Longrightarrow> c \<noteq> 8212"
proof
  assume a: "sub_emdash (c # cs) = c # sub_emdash cs" and c: "c = 8212"
  have "dropWhile is_space (c # cs) = 8212 # cs" using c by simp
  then have "sub_emdash (c # cs) = [32, 8212, 32] @ sub_emdash (dropWhile is_space cs)"
    by (rule sub_emdash_match)
  then show False using a c by simp
qed

subsection \<open>Whitespace runs\<close>

lemma sub_whitespace_spaces: "c \<in> set (sub_whitespace s) \<Longrightarrow> is_space c \<Longrightarrow> c = 32"
proof (induction s rule: sub_whitespace.induct)
  case 1
  then show ?case by (simp add: sub_whitespace.simps(1))
next
  case (2 d ds)
  show ?case
  proof (cases "is_space d")
    case True
    then show ?thesis using 2(1)[OF True] 2(3,4) by (auto simp: sub_whitespace_space)
  next
    case False
    then show ?thesis using 2(2)[OF False] 2(3,4) by (auto simp: sub_whitespace_other)
  qed
qed

subsection \<open>Periods\<close>

lemma sub_periods_Nil_iff [simp]: "sub_periods s = [] \<longleftrightarrow> s = []"
  by (cases s) (auto simp: sub_periods.simps)

lemma hd_sub_periods [simp]: "hd (sub_periods s) = hd s"
  by (cases s) (auto simp: sub_periods.simps)

lemma set_sub_periods: "set (sub_periods s) \<subseteq> set s"
proof (induction s rule: sub_periods.induct)
  case 1
  then show ?case by (simp add: sub_periods.simps(1))
next
  case (2 c cs)
  show ?case
  proof (cases "c = 46")
    case True
    have "set (dropWhile (\<lambda>d. d = 46) cs) \<subseteq> set cs" by (rule set_dropWhile_subset)
    then show ?thesis using True 2(1)[OF True] by (auto simp: sub_periods_period)
  next
    case False
    then show ?thesis using 2(2)[OF False] by (auto simp: sub_periods_other)
  qed
qed

definition no_double_period :: "nat \<Rightarrow> nat \<Rightarrow> bool" where
  "no_double_period a b = (\<not> (a = 46 \<and> b = 46))"

lemma sub_periods_no_double: "successively no_double_period (sub_periods s)"
proof (induction s rule: sub_periods.induct)
  case 1
  then show ?case by (simp add: sub_periods.simps(1))
next
  case (2 c cs)
  show ?case
  proof (cases "c = 46")
    case True
    let ?r = "dropWhile (\<lambda>d. d = 46) cs"
    have ih: "successively no_double_period (sub_periods ?r)" using 2(1)[OF True] .
    have "?r \<noteq> [] \<Longrightarrow> hd ?r \<noteq> 46" by (rule hd_dropWhile)
    then have "sub_periods ?r = [] \<or> hd (sub_periods ?r) \<noteq> 46" by auto
    then have "successively no_double_period (46 # sub_periods ?r)"
      using ih by (auto simp: successively_Cons no_double_period_def)
    then show ?thesis using True by (simp add: sub_periods_period)
  next
    case False
    have "successively no_double_period (c # sub_periods cs)"
      using 2(2)[OF False] False by (auto simp: successively_Cons no_double_period_def)
    then show ?thesis using False by (simp add: sub_periods_other)
  qed
qed

subsection \<open>Commas\<close>

lemma sub_commas_Nil_iff [simp]: "sub_commas s = [] \<longleftrightarrow> s = []"
  by (cases s) (auto simp: sub_commas.simps split: list.splits)

lemma hd_sub_commas [simp]: "hd (sub_commas s) = hd s"
  by (cases s) (auto simp: sub_commas.simps split: list.splits)

lemma set_sub_commas: "set (sub_commas s) \<subseteq> set s"
proof (induction s rule: sub_commas.induct)
  case 1
  then show ?case by (simp add: sub_commas.simps(1))
next
  case (2 c cs)
  have keep: "set (sub_commas cs) \<subseteq> set cs \<Longrightarrow> set (c # sub_commas cs) \<subseteq> set (c # cs)"
    by auto
  show ?case
  proof (cases "c = 44")
    case False
    then have "sub_commas (c # cs) = c # sub_commas cs" by (simp add: sub_commas_other)
    then show ?thesis using keep 2(4)[OF False] by simp
  next
    case True
    show ?thesis
    proof (cases "dropWhile is_space cs")
      case Nil
      then have "sub_commas (c # cs) = c # sub_commas cs" by (simp add: sub_commas_other)
      then show ?thesis using keep 2(1)[OF True Nil] by simp
    next
      case (Cons d ds)
      show ?thesis
      proof (cases "d = 44")
        case d: True
        have "set (dropWhile is_space cs) \<subseteq> set cs" by (rule set_dropWhile_subset)
        then have sub: "set (d # ds) \<subseteq> set cs" by (simp only: Cons)
        have ih: "set (sub_commas ds) \<subseteq> set ds" using 2(2)[OF True Cons d] .
        have "sub_commas (c # cs) = 44 # sub_commas ds"
          using True Cons d by (simp add: sub_commas_match)
        then show ?thesis using ih sub True by auto
      next
        case d: False
        then have "sub_commas (c # cs) = c # sub_commas cs"
          using Cons by (simp add: sub_commas_other)
        then show ?thesis using keep 2(3)[OF True Cons d] by simp
      qed
    qed
  qed
qed

text \<open>Every pair of neighbours of the output is a pair of neighbours of the input.\<close>

lemma sub_commas_successively:
  "successively P s \<Longrightarrow> successively P (sub_commas s)"
proof (induction s rule: sub_commas.induct)
  case 1
  then show ?case by (simp add: sub_commas.simps(1))
next
  case (2 c cs)
  have tl: "successively P cs" using 2(5) by (rule successively_tl)
  have keep: "successively P (c # sub_commas cs)" if "successively P (sub_commas cs)"
    using 2(5) that by (rule successively_replace_tail) simp_all
  show ?case
  proof (cases "c = 44")
    case False
    then have "sub_commas (c # cs) = c # sub_commas cs" by (simp add: sub_commas_other)
    then show ?thesis using keep 2(4)[OF False tl] by simp
  next
    case True
    show ?thesis
    proof (cases "dropWhile is_space cs")
      case Nil
      then have "sub_commas (c # cs) = c # sub_commas cs" by (simp add: sub_commas_other)
      then show ?thesis using keep 2(1)[OF True Nil tl] by simp
    next
      case (Cons d ds)
      show ?thesis
      proof (cases "d = 44")
        case d: False
        then have "sub_commas (c # cs) = c # sub_commas cs"
          using Cons by (simp add: sub_commas_other)
        then show ?thesis using keep 2(3)[OF True Cons d tl] by simp
      next
        case d: True
        have "successively P (dropWhile is_space cs)" using tl by (rule successively_dropWhile)
        then have s1: "successively P (d # ds)" by (simp only: Cons)
        then have "successively P ds" by (rule successively_tl)
        then have "successively P (sub_commas ds)" by (rule 2(2)[OF True Cons d])
        with s1 have "successively P (d # sub_commas ds)"
          by (rule successively_replace_tail) simp_all
        moreover have "sub_commas (c # cs) = 44 # sub_commas ds"
          using True Cons d by (simp add: sub_commas_match)
        ultimately show ?thesis using d by simp
      qed
    qed
  qed
qed

subsection \<open>Em-dashes\<close>

lemma sub_emdash_Nil_iff [simp]: "sub_emdash s = [] \<longleftrightarrow> s = []"
  by (cases s) (auto simp: sub_emdash.simps split: list.splits)

lemma sub_emdash_cases:
  obtains (match) ds where "dropWhile is_space (c # cs) = 8212 # ds"
      "sub_emdash (c # cs) = [32, 8212, 32] @ sub_emdash (dropWhile is_space ds)"
    | (other) "sub_emdash (c # cs) = c # sub_emdash cs" "c \<noteq> 8212"
      "dropWhile is_space (c # cs) = [] \<or> hd (dropWhile is_space (c # cs)) \<noteq> 8212"
proof (cases "dropWhile is_space (c # cs) = [] \<or> hd (dropWhile is_space (c # cs)) \<noteq> 8212")
  case True
  then have e: "sub_emdash (c # cs) = c # sub_emdash cs" by (rule sub_emdash_other)
  then have "c \<noteq> 8212" by (rule sub_emdash_other_head)
  show ?thesis using e \<open>c \<noteq> 8212\<close> True by (rule other)
next
  case False
  then obtain ds where d: "dropWhile is_space (c # cs) = 8212 # ds"
    by (cases "dropWhile is_space (c # cs)") auto
  then have "sub_emdash (c # cs) = [32, 8212, 32] @ sub_emdash (dropWhile is_space ds)"
    by (rule sub_emdash_match)
  with d show ?thesis by (rule match)
qed

lemma hd_sub_emdash:
  "s \<noteq> [] \<Longrightarrow> hd (sub_emdash s) = 32 \<or> (hd (sub_emdash s) = hd s \<and> hd s \<noteq> 8212)"
proof (cases s)
  case Nil
  then show "s \<noteq> [] \<Longrightarrow> ?thesis" by simp
next
  case (Cons c cs)
  show ?thesis by (rule sub_emdash_cases[of c cs]) (simp_all add: Cons)
qed

lemma hd_sub_emdash_not_emdash: "s \<noteq> [] \<Longrightarrow> hd (sub_emdash s) \<noteq> 8212"
  using hd_sub_emdash[of s] by auto

lemma set_sub_emdash: "set (sub_emdash s) \<subseteq> set s \<union> {32, 8212}"
proof (induction s rule: sub_emdash.induct)
  case 1
  then show ?case by (simp add: sub_emdash.simps(1))
next
  case (2 c cs)
  show ?case
  proof (cases rule: sub_emdash_cases[of c cs])
    case (match ds)
    have "set (dropWhile is_space (c # cs)) \<subseteq> set (c # cs)" by (rule set_dropWhile_subset)
    then have sub: "set (8212 # ds) \<subseteq> set (c # cs)" by (simp only: match(1))
    have "set (dropWhile is_space ds) \<subseteq> set ds" by (rule set_dropWhile_subset)
    moreover have "set (sub_emdash (dropWhile is_space ds))
        \<subseteq> set (dropWhile is_space ds) \<union> {32, 8212}"
      by (rule 2(2)[OF match(1)]) simp
    ultimately show ?thesis using sub unfolding match(2) by auto
  next
    case other
    have "set (sub_emdash cs) \<subseteq> set cs \<union> {32, 8212}"
    proof (cases "dropWhile is_space (c # cs)")
      case Nil
      then show ?thesis by (rule 2(1))
    next
      case (Cons d ds)
      then have "d \<noteq> 8212" using other(3) by simp
      with Cons show ?thesis by (rule 2(3))
    qed
    then show ?thesis unfolding other(1) by auto
  qed
qed

text \<open>
  A relation on neighbours that holds as soon as one of them is a space, that holds from
  and to an em-dash next to a space, and that held on the input, holds on the output.
\<close>

lemma sub_emdash_successively:
  assumes P: "\<And>a. P a 32" "\<And>b. P 32 b"
  shows "successively P s \<Longrightarrow> successively P (sub_emdash s)"
proof (induction s rule: sub_emdash.induct)
  case 1
  then show ?case by (simp add: sub_emdash.simps(1))
next
  case (2 c cs)
  have tl: "successively P cs" using 2(4) by (rule successively_tl)
  show ?case
  proof (cases rule: sub_emdash_cases[of c cs])
    case (match ds)
    let ?r = "dropWhile is_space ds"
    have "successively P (dropWhile is_space (c # cs))"
      using 2(4) by (rule successively_dropWhile)
    then have "successively P (8212 # ds)" by (simp only: match(1))
    then have "successively P ds" by (rule successively_tl)
    then have "successively P ?r" by (rule successively_dropWhile)
    then have ih: "successively P (sub_emdash ?r)" by (rule 2(2)[OF match(1) refl])
    have "successively P (32 # sub_emdash ?r)"
      using ih P(2) by (auto simp: successively_Cons)
    then have "successively P ([32, 8212, 32] @ sub_emdash ?r)"
      using P by simp
    then show ?thesis unfolding match(2) .
  next
    case other
    have r: "successively P (sub_emdash cs)"
    proof (cases "dropWhile is_space (c # cs)")
      case Nil
      then show ?thesis using tl by (rule 2(1))
    next
      case (Cons d ds)
      then have "d \<noteq> 8212" using other(3) by simp
      with Cons show ?thesis using tl by (rule 2(3))
    qed
    have "successively P (c # sub_emdash cs)"
    proof (cases cs)
      case Nil
      then show ?thesis by (simp add: sub_emdash.simps(1))
    next
      case (Cons e es)
      then have "hd (sub_emdash cs) = 32 \<or> hd (sub_emdash cs) = hd cs"
        using hd_sub_emdash[of cs] by auto
      moreover have "P c (hd cs)" using 2(4) Cons by simp
      ultimately have "P c (hd (sub_emdash cs))" using P(1) by auto
      then show ?thesis using r Cons by (auto simp: successively_Cons)
    qed
    then show ?thesis unfolding other(1) .
  qed
qed

definition emdash_spaced :: "nat \<Rightarrow> nat \<Rightarrow> bool" where
  "emdash_spaced a b = ((a = 8212 \<longrightarrow> b = 32) \<and> (b = 8212 \<longrightarrow> a = 32))"

lemma sub_emdash_spaced: "successively emdash_spaced (sub_emdash s)"
proof (induction s rule: sub_emdash.induct)
  case 1
  then show ?case by (simp add: sub_emdash.simps(1))
next
  case (2 c cs)
  have step: "successively emdash_spaced (x # sub_emdash xs)"
    if "successively emdash_spaced (sub_emdash xs)" "x \<noteq> 8212" for x xs
    using that hd_sub_emdash_not_emdash[of xs]
    by (cases xs) (auto simp: successively_Cons emdash_spaced_def sub_emdash.simps(1))
  show ?case
  proof (cases rule: sub_emdash_cases[of c cs])
    case (match ds)
    let ?r = "dropWhile is_space ds"
    have "successively emdash_spaced (sub_emdash ?r)" by (rule 2(2)[OF match(1) refl])
    then have "successively emdash_spaced (32 # sub_emdash ?r)" by (rule step) simp
    then have "successively emdash_spaced ([32, 8212, 32] @ sub_emdash ?r)"
      by (simp add: emdash_spaced_def)
    then show ?thesis unfolding match(2) .
  next
    case other
    have "successively emdash_spaced (sub_emdash cs)"
    proof (cases "dropWhile is_space (c # cs)")
      case Nil
      then show ?thesis by (rule 2(1))
    next
      case (Cons d ds)
      then have "d \<noteq> 8212" using other(3) by simp
      with Cons show ?thesis by (rule 2(3))
    qed
    then have "successively emdash_spaced (c # sub_emdash cs)" using other(2) by (rule step)
    then show ?thesis unfolding other(1) .
  qed
qed

subsection \<open>strip\<close>

lemma set_strip: "set (strip s) \<subseteq> set s"
proof -
  have "set (strip s) = set (dropWhile is_space (rev (dropWhile is_space s)))"
    by (simp add: strip_def)
  also have "\<dots> \<subseteq> set (rev (dropWhile is_space s))" by (rule set_dropWhile_subset)
  also have "\<dots> = set (dropWhile is_space s)" by simp
  also have "\<dots> \<subseteq> set s" by (rule set_dropWhile_subset)
  finally show ?thesis .
qed

lemma strip_successively:
  assumes "successively P s"
  shows "successively P (strip s)"
proof -
  have "successively P (dropWhile is_space s)" using assms by (rule successively_dropWhile)
  then have "successively (\<lambda>x y. P y x) (rev (dropWhile is_space s))" by simp
  then have "successively (\<lambda>x y. P y x) (dropWhile is_space (rev (dropWhile is_space s)))"
    by (rule successively_dropWhile)
  then show ?thesis unfolding strip_def by simp
qed

lemma strip_ends:
  "strip s = [] \<or> (\<not> is_space (hd (strip s)) \<and> \<not> is_space (last (strip s)))"
proof (cases "strip s = []")
  case True
  then show ?thesis by simp
next
  case False
  let ?ys = "dropWhile is_space s"
  let ?zs = "dropWhile is_space (rev ?ys)"
  have zs: "?zs \<noteq> []" using False by (simp add: strip_def)
  have ys: "?ys \<noteq> []"
  proof
    assume e: "?ys = []"
    have "?zs = dropWhile is_space (rev [])" by (simp only: e)
    then show False using zs by simp
  qed
  have l: "\<not> is_space (hd ?zs)" using zs by (rule hd_dropWhile)
  have "rev ?ys = takeWhile is_space (rev ?ys) @ ?zs" by simp
  then have "last (rev ?ys) = last ?zs" using zs by (metis last_appendR)
  then have "last ?zs = hd ?ys" using ys by (simp add: last_rev)
  moreover have "\<not> is_space (hd ?ys)" using ys by (rule hd_dropWhile)
  ultimately have h: "\<not> is_space (last ?zs)" by simp
  have "hd (strip s) = last ?zs" "last (strip s) = hd ?zs"
    using zs by (simp_all add: strip_def hd_rev last_rev)
  then show ?thesis using l h by simp
qed

lemmas cleanup_eval = cleanup_formatting_def sub_whitespace.simps sub_periods.simps
  sub_commas.simps sub_emdash.simps strip_def str_def is_space_def

text \<open>
  What the clean-up guarantees for every input: its output has no leading and no trailing
  whitespace, no two periods in a row, no whitespace character other than the space U+0020,
  and every em-dash in it has a space right before it and right after it, unless the em-dash
  is the first or the last character. \<open>successively R xs\<close> says that \<open>R\<close> holds between all
  neighbours of \<open>xs\<close>.
\<close>

lemma cleanup_formatting_guarantees:
  "(cleanup_formatting s = []
      \<or> (\<not> is_space (hd (cleanup_formatting s)) \<and> \<not> is_space (last (cleanup_formatting s))))
   \<and> successively no_double_period (cleanup_formatting s)
   \<and> (\<forall>c \<in> set (cleanup_formatting s). is_space c \<longrightarrow> c = 32)
   \<and> successively emdash_spaced (cleanup_formatting s)"
proof (intro conjI)
  let ?w = "sub_whitespace s"
  let ?x = "sub_commas (sub_periods ?w)"
  show "cleanup_formatting s = []
      \<or> (\<not> is_space (hd (cleanup_formatting s)) \<and> \<not> is_space (last (cleanup_formatting s)))"
    unfolding cleanup_formatting_def by (rule strip_ends)
  have "successively no_double_period (sub_periods ?w)" by (rule sub_periods_no_double)
  then have "successively no_double_period ?x" by (rule sub_commas_successively)
  then have "successively no_double_period (sub_emdash ?x)"
    by (rule sub_emdash_successively[rotated 2]) (simp_all add: no_double_period_def)
  then show "successively no_double_period (cleanup_formatting s)"
    unfolding cleanup_formatting_def by (rule strip_successively)
  show "\<forall>c \<in> set (cleanup_formatting s). is_space c \<longrightarrow> c = 32"
  proof (intro ballI impI)
    fix c assume c: "c \<in> set (cleanup_formatting s)" and sp: "is_space c"
    have "c \<in> set (sub_emdash ?x)"
      using c set_strip unfolding cleanup_formatting_def by blast
    then have "c \<in> set ?x \<or> c = 32 \<or> c = 8212" using set_sub_emdash[of ?x] by auto
    moreover have "c \<noteq> 8212" using sp by auto
    moreover have "c \<in> set ?x \<Longrightarrow> c \<in> set ?w"
      using set_sub_commas[of "sub_periods ?w"] set_sub_periods[of ?w] by blast
    ultimately show "c = 32" using sub_whitespace_spaces[OF _ sp] by blast
  qed
  have "successively emdash_spaced (sub_emdash ?x)" by (rule sub_emdash_spaced)
  then show "successively emdash_spaced (cleanup_formatting s)"
    unfolding cleanup_formatting_def by (rule strip_successively)
qed

text \<open>
  Claim C5 (the output of the clean-up contains no run of two or more whitespace characters
  and no duplicate commas) at the texts \<^verbatim>\<open>Wait,,, what.\<close> and \<^verbatim>\<open>so\<close>, two em-dashes, \<^verbatim>\<open>it is.\<close>:
  of three commas in a row two are left, since the matches of the comma pattern do not
  overlap, and two em-dashes in a row come out with two spaces between them, since the
  em-dash substitution runs after the one that collapses whitespace. The two statements
  carry the comments \<^verbatim>\<open>Remove duplicate commas\<close> and \<^verbatim>\<open>Remove extra spaces\<close>. The last conjunct
  is the whole of \<^verbatim>\<open>humanize_text\<close> on the first text when the steps 1 to 10 leave it as
  it is.
\<close>

theorem C5_duplicates_survive:
  "cleanup_formatting (str ''Wait,,, what.'') = str ''Wait,, what.''
   \<and> cleanup_formatting (str ''so'' @ [8212, 8212] @ str ''it is.'')
     = str ''so '' @ [8212] @ str ''  '' @ [8212] @ str '' it is.''
   \<and> humanize_text demo_passes (str ''Wait,,, what.'') (str ''fast'')
     = Inr (str ''Wait,, what.'', \<lparr>ai_generated = 75, human_written = 25\<rparr>, ())"
proof -
  have c: "cleanup_formatting (str ''Wait,,, what.'') = str ''Wait,, what.''"
    by (simp add: cleanup_eval)
  have t: "get_target_percentages (str ''fast'') = \<lparr>ai_generated = 75, human_written = 25\<rparr>"
    by (simp add: get_target_percentages_def targets_def str_def)
  have "cleanup_formatting (str ''so'' @ [8212, 8212] @ str ''it is.'')
     = str ''so '' @ [8212] @ str ''  '' @ [8212] @ str '' it is.''"
    by (simp add: cleanup_eval)
  moreover have "humanize_text demo_passes (str ''Wait,,, what.'') (str ''fast'')
     = Inr (str ''Wait,, what.'', \<lparr>ai_generated = 75, human_written = 25\<rparr>, ())"
    unfolding humanize_text_def demo_passes_def Let_def by (simp only: sum.case prod.case c t)
  ultimately show ?thesis using c by (simp only: simp_thms)
qed

section \<open>Overall humanness score\<close>























text \<open>The analysis fails exactly when the perplexity estimate overflows.\<close>

lemma analyze_text_fails_iff:
  "(\<exists>e. analyze_text U t = Inl e) \<longleftrightarrow>
     (2 \<le> length (split_words U t)
      \<and> 1024 \<le> word_entropy (map (lower U) (split_words U t)))"
  by (auto simp: analyze_text_def estimate_perplexity_def Let_def split: sum.splits)





subsection \<open>The failure of the analysis\<close>

lemma runs_skip: "\<not> P d \<Longrightarrow> runs P (d # s) = runs P s"
  by (simp add: runs.simps[of P "d # s"] runs.simps[of P s])

lemma runs_word: "P c \<Longrightarrow> \<not> P d \<Longrightarrow> runs P (c # d # s) = [c] # runs P s"
  by (simp add: runs.simps[of P "c # d # s"] runs_skip)

lemma runs_abc:
  "runs (is_word_char ascii_ucd) (str ''a b c '' @ rest)
     = [str ''a'', str ''b'', str ''c''] @ runs (is_word_char ascii_ucd) rest"
  by (simp add: str_def runs_word is_word_char_def ascii_ucd_def ascii_isalnum_def)

lemma words_abc:
  "split_words ascii_ucd (concat (replicate n (str ''a b c '')))
     = concat (replicate n [str ''a'', str ''b'', str ''c''])"
proof -
  have l: "lower ascii_ucd (concat (replicate n (str ''a b c '')))
      = concat (replicate n (str ''a b c ''))"
    by (simp add: ascii_ucd_def map_concat ascii_lower_def str_def)
  have "runs (is_word_char ascii_ucd) (concat (replicate n (str ''a b c '')))
      = concat (replicate n [str ''a'', str ''b'', str ''c''])"
  proof (induction n)
    case 0
    show ?case by (simp add: runs.simps)
  next
    case (Suc n)
    show ?case using runs_abc[of "concat (replicate n (str ''a b c ''))"] Suc by simp
  qed
  then show ?thesis by (simp add: split_words_def findall_words_def l)
qed

lemma lower_abc:
  "map (lower ascii_ucd) (concat (replicate n [str ''a'', str ''b'', str ''c'']))
     = concat (replicate n [str ''a'', str ''b'', str ''c''])"
  by (induction n) (simp_all add: ascii_ucd_def ascii_lower_def str_def)

lemma count_list_concat_replicate:
  "count_list (concat (replicate n xs)) x = n * count_list xs x"
  by (induction n) simp_all

lemma sum_list_concat_replicate:
  fixes f :: "'a \<Rightarrow> real"
  shows "(\<Sum>x\<leftarrow>concat (replicate n xs). f x) = real n * (\<Sum>x\<leftarrow>xs. f x)"
  by (induction n) (simp_all add: algebra_simps)

lemma set_concat_replicate: "set (concat (replicate n xs)) \<subseteq> set xs"
  by (induction n) simp_all

lemma length_abc: "length (concat (replicate n [str ''a'', str ''b'', str ''c''])) = 3 * n"
  by (induction n) simp_all

lemma entropy_abc:
  assumes "0 < n"
  shows "word_entropy (concat (replicate n [str ''a'', str ''b'', str ''c''])) = real n * log 2 3"
proof -
  let ?ws = "concat (replicate n [str ''a'', str ''b'', str ''c''])"
  have len: "length ?ws = 3 * n" by (rule length_abc)
  have cnt: "real (count_list ?ws w) / real (length ?ws) = 1 / 3" if "w \<in> set ?ws" for w
  proof -
    from that have "w = str ''a'' \<or> w = str ''b'' \<or> w = str ''c''"
      using set_concat_replicate[of n "[str ''a'', str ''b'', str ''c'']"] by auto
    then have "count_list ?ws w = n"
      by (auto simp: count_list_concat_replicate str_def)
    then show ?thesis using assms by (simp add: len)
  qed
  have p: "map (\<lambda>word. real (count_list ?ws word) / real (length ?ws)) ?ws
      = map (\<lambda>word. 1 / 3) ?ws"
    by (rule map_cong[OF refl]) (rule cnt)
  have f: "filter (\<lambda>p. 0 < p) (map (\<lambda>word. 1 / 3 :: real) ?ws) = map (\<lambda>word. 1 / 3) ?ws"
    by (simp add: filter_map comp_def)
  have l: "log 2 (1 / 3) = - log 2 3" by (simp add: log_divide)
  show ?thesis
    unfolding word_entropy_def Let_def p f
    by (simp add: comp_def sum_list_concat_replicate l)
qed

lemma entropy_647: "1024 \<le> 647 * log 2 3"
proof -
  have "(2::real) ^ 1024 \<le> 3 ^ 647" by simp
  then have "log 2 ((2::real) ^ 1024) \<le> log 2 (3 ^ 647)"
    by (subst log_le_cancel_iff) simp_all
  moreover have "log 2 ((2::real) ^ 1024) = real 1024 * log 2 2"
    by (rule log_nat_power) simp
  moreover have "log 2 ((3::real) ^ 647) = real 647 * log 2 3"
    by (rule log_nat_power) simp
  ultimately have "real 1024 * log 2 2 \<le> real 647 * log 2 3" by (simp only:)
  then show ?thesis by simp
qed

text \<open>
  The failure path is taken: on the text \<^verbatim>\<open>'a b c ' * 647\<close> the entropy is 647 times the binary
  logarithm of 3, about 1025.47, the power overflows, and the analysis answers with the
  failure dictionary, which has no overall score.
\<close>

lemma analyze_text_overflow:
  "analyze_text ascii_ucd (concat (replicate 647 (str ''a b c '')))
     = Inl (''Text analysis failed: '' @ overflow_error)"
proof -
  have "estimate_perplexity ascii_ucd (concat (replicate 647 (str ''a b c ''))) = Inl overflow_error"
    unfolding estimate_perplexity_def words_abc lower_abc Let_def
    using entropy_647 entropy_abc[of 647] by (simp add: length_abc)
  then show ?thesis by (simp add: analyze_text_def Let_def)
qed

subsection \<open>The blend\<close>




end
